theory Spec2Isabelle
  imports Main
begin

section \<open>Lexer: get_token\<close>

text \<open>
  The file-scope variables of the front end, as one record. The standard input is the
  list of bytes not yet read. \<open>last_char\<close> is the function-local static of
  \<open>get_token\<close>; it is a C \<open>char\<close>, taken as signed (clang and gcc on x86), so that
  the \<open>int\<close> returned by \<open>getchar\<close> is cut to eight bits when it is stored:
  \<open>EOF = -1\<close> is stored as the byte \<open>0xFF\<close>, and the test \<open>last_char == EOF\<close>
  holds exactly for that byte. The type \<open>'d\<close> stands for \<open>double\<close>; no arithmetic is
  done on it by the front end.
\<close>

record 'd state =
  last_char :: char
  stdin :: string
  identifier_string :: string
  number_val :: 'd
  curr_token :: int
  stderr :: "string list"

abbreviation TOK_EOF :: int where "TOK_EOF \<equiv> - 1"
abbreviation TOK_DEF :: int where "TOK_DEF \<equiv> - 2"
abbreviation TOK_EXTERN :: int where "TOK_EXTERN \<equiv> - 3"
abbreviation TOK_IDENTIFIER :: int where "TOK_IDENTIFIER \<equiv> - 4"
abbreviation TOK_NUMBER :: int where "TOK_NUMBER \<equiv> - 5"

text \<open>The value \<open>(char) EOF\<close>.\<close>

abbreviation EOF_char :: char where "EOF_char \<equiv> CHR 0xFF"

text \<open>The conversion \<open>(int) c\<close> of a signed \<open>char\<close>.\<close>

definition int_of_char :: "char \<Rightarrow> int" where
  "int_of_char c = (if (of_char c :: int) < 128 then of_char c else of_char c - 256)"

text \<open>The statement \<open>last_char = getchar();\<close>.\<close>

definition getchar :: "'d state \<Rightarrow> 'd state" where
  "getchar st =
     (case stdin st of
        [] \<Rightarrow> st\<lparr>last_char := EOF_char\<rparr>
      | c # cs \<Rightarrow> st\<lparr>last_char := c, stdin := cs\<rparr>)"

text \<open>
  The character classes of \<open><cctype>\<close> in the C locale; a byte above \<open>0x7F\<close>, and so
  the end-of-input mark, is in none of them.
\<close>

definition isspace :: "char \<Rightarrow> bool" where
  "isspace c = (c = CHR '' '' \<or> (9 \<le> (of_char c :: nat) \<and> (of_char c :: nat) \<le> 13))"

definition isalpha :: "char \<Rightarrow> bool" where
  "isalpha c = ((65 \<le> (of_char c :: nat) \<and> (of_char c :: nat) \<le> 90) \<or>
                (97 \<le> (of_char c :: nat) \<and> (of_char c :: nat) \<le> 122))"

definition isdigit :: "char \<Rightarrow> bool" where
  "isdigit c = (48 \<le> (of_char c :: nat) \<and> (of_char c :: nat) \<le> 57)"

definition isalnum :: "char \<Rightarrow> bool" where
  "isalnum c = (isalpha c \<or> isdigit c)"

text \<open>
  What is left to read: the bytes of the input, and one more while the pushback slot
  holds a byte that is not the end-of-input mark.
\<close>

definition pending :: "'d state \<Rightarrow> nat" where
  "pending st = length (stdin st) + (if last_char st = EOF_char then 0 else 1)"

text \<open>\<open>while (isspace(last_char)) last_char = getchar();\<close>\<close>

function skip_space :: "'d state \<Rightarrow> 'd state" where
  "skip_space st = (if isspace (last_char st) then skip_space (getchar st) else st)"
  by pat_completeness auto
termination
  by (relation "measure (\<lambda>st. length (stdin st) + (if isspace (last_char st) then 1 else 0))")
     (auto simp: getchar_def isspace_def split: list.splits)

text \<open>\<open>while (isalnum(last_char)) { identifier_string += last_char; last_char = getchar(); }\<close>\<close>

function read_identifier :: "'d state \<Rightarrow> 'd state" where
  "read_identifier st =
     (if isalnum (last_char st)
      then read_identifier (getchar (st\<lparr>identifier_string := identifier_string st @ [last_char st]\<rparr>))
      else st)"
  by pat_completeness auto
termination
  by (relation "measure (\<lambda>st. length (stdin st) + (if isalnum (last_char st) then 1 else 0))")
     (auto simp: getchar_def isalnum_def isalpha_def isdigit_def split: list.splits)

text \<open>
  \<open>while (isdigit(last_char) || last_char == '.') { num_string += last_char; last_char = getchar(); }\<close>,
  with the local \<open>num_string\<close> passed along.
\<close>

function read_number :: "string \<Rightarrow> 'd state \<Rightarrow> string \<times> 'd state" where
  "read_number num_string st =
     (if isdigit (last_char st) \<or> last_char st = CHR ''.''
      then read_number (num_string @ [last_char st]) (getchar st)
      else (num_string, st))"
  by pat_completeness auto
termination
  by (relation "measure (\<lambda>(n, st). length (stdin st) +
          (if isdigit (last_char st) \<or> last_char st = CHR ''.'' then 1 else 0))")
     (auto simp: getchar_def isdigit_def split: list.splits)

text \<open>
  \<open>while (last_char != EOF && last_char != '\n' && last_char != '\r') last_char = getchar();\<close>
\<close>

function skip_comment :: "'d state \<Rightarrow> 'd state" where
  "skip_comment st =
     (if last_char st \<noteq> EOF_char \<and> last_char st \<noteq> CHR 0x0A \<and> last_char st \<noteq> CHR 0x0D
      then skip_comment (getchar st)
      else st)"
  by pat_completeness auto
termination
  by (relation "measure (\<lambda>st. length (stdin st) + (if last_char st = EOF_char then 0 else 1))")
     (auto simp: getchar_def split: list.splits)

declare skip_space.simps [simp del] read_identifier.simps [simp del]
  read_number.simps [simp del] skip_comment.simps [simp del]

lemma pending_getchar: "pending (getchar st) \<le> pending st"
proof (cases "stdin st")
  case Nil
  then show ?thesis by (simp add: pending_def getchar_def)
next
  case (Cons c cs)
  then show ?thesis by (simp add: pending_def getchar_def)
qed

lemma pending_getchar_less: "last_char st \<noteq> EOF_char \<Longrightarrow> pending (getchar st) < pending st"
  by (cases "stdin st") (simp_all add: pending_def getchar_def)

lemma pending_skip_space: "pending (skip_space st) \<le> pending st"
proof (induction st rule: skip_space.induct)
  case (1 st)
  show ?case
  proof (cases "isspace (last_char st)")
    case True
    then have "pending (skip_space st) \<le> pending (getchar st)"
      using "1.IH" by (subst skip_space.simps) simp
    then show ?thesis using pending_getchar [of st] by linarith
  next
    case False
    then show ?thesis by (subst skip_space.simps) simp
  qed
qed

lemma pending_skip_comment: "pending (skip_comment st) \<le> pending st"
proof (induction st rule: skip_comment.induct)
  case (1 st)
  show ?case
  proof (cases "last_char st \<noteq> EOF_char \<and> last_char st \<noteq> CHR 0x0A \<and> last_char st \<noteq> CHR 0x0D")
    case True
    then have "pending (skip_comment st) \<le> pending (getchar st)"
      using "1.IH" by (subst skip_comment.simps) simp
    then show ?thesis using pending_getchar [of st] by linarith
  next
    case False
    then have "skip_comment st = st" by (subst skip_comment.simps) (simp only: if_False)
    then show ?thesis by simp
  qed
qed


text \<open>
  \<open>get_token\<close>. The library function \<open>strtod\<close> is a parameter. The keyword table
  \<open>string_to_keyword\<close> has the two entries \<open>def\<close> and \<open>extern\<close>. After a comment that
  ends at a line end the function calls itself; a comment that runs to the end of the
  input falls through to the end-of-input test.
\<close>

function get_token :: "(string \<Rightarrow> 'd) \<Rightarrow> 'd state \<Rightarrow> int \<times> 'd state" where
  "get_token strtod st0 =
     (let st = skip_space st0 in
      if isalpha (last_char st) then
        (let st1 = read_identifier (getchar (st\<lparr>identifier_string := [last_char st]\<rparr>)) in
         (if identifier_string st1 = ''def'' then TOK_DEF
          else if identifier_string st1 = ''extern'' then TOK_EXTERN
          else TOK_IDENTIFIER, st1))
      else if isdigit (last_char st) then
        (let (num_string, st1) = read_number [last_char st] (getchar st) in
         (TOK_NUMBER, st1\<lparr>number_val := strtod num_string\<rparr>))
      else if last_char st = CHR ''#'' then
        (let st1 = skip_comment (getchar st) in
         if last_char st1 \<noteq> EOF_char then get_token strtod (getchar st1)
         else (TOK_EOF, st1))
      else if last_char st = EOF_char then (TOK_EOF, st)
      else (int_of_char (last_char st), getchar st))"
  by pat_completeness auto
termination
proof (relation "measure (\<lambda>(f, st). pending st)", goal_cases)
  case 1
  show ?case by simp
next
  case (2 strtod st0 st st1)
  have "pending (getchar st1) \<le> pending (getchar st)"
    using pending_getchar [of st1] pending_skip_comment [of "getchar st"] 2 by simp
  moreover have "pending (getchar st) < pending st"
    using 2 by (intro pending_getchar_less) auto
  moreover have "pending st \<le> pending st0"
    using 2 pending_skip_space [of st0] by simp
  ultimately show ?case by simp
qed

declare get_token.simps [simp del]

text \<open>\<open>get_next_token\<close>: the cursor of the parser.\<close>

definition get_next_token :: "(string \<Rightarrow> 'd) \<Rightarrow> 'd state \<Rightarrow> 'd state" where
  "get_next_token strtod st = (let (t, st1) = get_token strtod st in st1\<lparr>curr_token := t\<rparr>)"


text \<open>
  A call of \<open>get_token\<close> never gives input back, and uses some up unless it returns
  \<open>TOK_EOF\<close>. The loops of the parser that advance the cursor terminate by this.
\<close>

lemma pending_ident_update [simp]: "pending (st\<lparr>identifier_string := x\<rparr>) = pending st"
  by (simp add: pending_def)

lemma pending_number_update [simp]: "pending (st\<lparr>number_val := x\<rparr>) = pending st"
  by (simp add: pending_def)

lemma pending_token_update [simp]: "pending (st\<lparr>curr_token := x\<rparr>) = pending st"
  by (simp add: pending_def)

lemma pending_read_identifier: "pending (read_identifier st) \<le> pending st"
proof (induction st rule: read_identifier.induct)
  case (1 st)
  show ?case
  proof (cases "isalnum (last_char st)")
    case True
    then have "pending (read_identifier st) \<le>
        pending (getchar (st\<lparr>identifier_string := identifier_string st @ [last_char st]\<rparr>))"
      using "1.IH" by (subst read_identifier.simps) simp
    also have "\<dots> \<le> pending (st\<lparr>identifier_string := identifier_string st @ [last_char st]\<rparr>)"
      by (rule pending_getchar)
    finally show ?thesis by simp
  next
    case False
    then show ?thesis by (subst read_identifier.simps) simp
  qed
qed

lemma pending_read_number: "pending (snd (read_number s st)) \<le> pending st"
proof (induction s st rule: read_number.induct)
  case (1 s st)
  show ?case
  proof (cases "isdigit (last_char st) \<or> last_char st = CHR ''.''")
    case True
    then have "pending (snd (read_number s st)) \<le> pending (getchar st)"
      using "1.IH" by (subst read_number.simps) simp
    then show ?thesis using pending_getchar [of st] by linarith
  next
    case False
    then have "read_number s st = (s, st)" by (subst read_number.simps) (simp only: if_False)
    then show ?thesis by simp
  qed
qed

lemma isalpha_not_EOF: "isalpha c \<Longrightarrow> c \<noteq> EOF_char"
  by (auto simp: isalpha_def)

lemma isdigit_not_EOF: "isdigit c \<Longrightarrow> c \<noteq> EOF_char"
  by (auto simp: isdigit_def)

lemma get_token_cases:
  assumes "st = skip_space st0"
  shows "get_token strtod st0 =
     (if isalpha (last_char st) then
        (let st1 = read_identifier (getchar (st\<lparr>identifier_string := [last_char st]\<rparr>)) in
         (if identifier_string st1 = ''def'' then TOK_DEF
          else if identifier_string st1 = ''extern'' then TOK_EXTERN
          else TOK_IDENTIFIER, st1))
      else if isdigit (last_char st) then
        (let (num_string, st1) = read_number [last_char st] (getchar st) in
         (TOK_NUMBER, st1\<lparr>number_val := strtod num_string\<rparr>))
      else if last_char st = CHR ''#'' then
        (let st1 = skip_comment (getchar st) in
         if last_char st1 \<noteq> EOF_char then get_token strtod (getchar st1)
         else (TOK_EOF, st1))
      else if last_char st = EOF_char then (TOK_EOF, st)
      else (int_of_char (last_char st), getchar st))"
  unfolding assms by (subst get_token.simps) (simp only: Let_def)

lemma pending_get_token:
  "get_token strtod st0 = (t, st') \<Longrightarrow>
     pending st' \<le> pending st0 \<and> (t \<noteq> TOK_EOF \<longrightarrow> pending st' < pending st0)"
proof (induction strtod st0 arbitrary: t st' rule: get_token.induct)
  case (1 strtod st0)
  define st where "st = skip_space st0"
  have le0: "pending st \<le> pending st0"
    unfolding st_def by (rule pending_skip_space)
  note gt = get_token_cases [OF st_def, of strtod]
  consider (alpha) "isalpha (last_char st)"
    | (digit) "\<not> isalpha (last_char st)" "isdigit (last_char st)"
    | (hash) "\<not> isalpha (last_char st)" "\<not> isdigit (last_char st)" "last_char st = CHR ''#''"
    | (eof) "\<not> isalpha (last_char st)" "\<not> isdigit (last_char st)" "last_char st \<noteq> CHR ''#''"
        "last_char st = EOF_char"
    | (other) "\<not> isalpha (last_char st)" "\<not> isdigit (last_char st)" "last_char st \<noteq> CHR ''#''"
        "last_char st \<noteq> EOF_char"
    by blast
  then show ?case
  proof cases
    case alpha
    define st1 where "st1 = read_identifier (getchar (st\<lparr>identifier_string := [last_char st]\<rparr>))"
    have "st' = st1"
      using "1.prems" alpha unfolding gt st1_def by (simp add: Let_def)
    moreover have "pending st1 \<le> pending (getchar (st\<lparr>identifier_string := [last_char st]\<rparr>))"
      unfolding st1_def by (rule pending_read_identifier)
    moreover have "pending (getchar (st\<lparr>identifier_string := [last_char st]\<rparr>)) < pending st"
      using pending_getchar_less [of "st\<lparr>identifier_string := [last_char st]\<rparr>"]
        isalpha_not_EOF [OF alpha] by simp
    ultimately show ?thesis using le0 by simp
  next
    case digit
    obtain ns st1 where rn: "read_number [last_char st] (getchar st) = (ns, st1)"
      by (cases "read_number [last_char st] (getchar st)") auto
    have "st' = st1\<lparr>number_val := strtod ns\<rparr>"
      using "1.prems" digit rn unfolding gt by (simp add: Let_def)
    moreover have "pending st1 \<le> pending (getchar st)"
      using pending_read_number [of "[last_char st]" "getchar st"] rn by simp
    moreover have "pending (getchar st) < pending st"
      using pending_getchar_less [of st] isdigit_not_EOF [OF digit(2)] by simp
    ultimately show ?thesis using le0 by simp
  next
    case hash
    define st1 where "st1 = skip_comment (getchar st)"
    have a: "pending (getchar st) < pending st"
      using pending_getchar_less [of st] hash(3) by simp
    have b: "pending st1 \<le> pending (getchar st)"
      unfolding st1_def by (rule pending_skip_comment)
    show ?thesis
    proof (cases "last_char st1 \<noteq> EOF_char")
      case True
      have "get_token strtod (getchar st1) = (t, st')"
        using "1.prems" hash True unfolding gt st1_def [symmetric] by (simp add: Let_def)
      from "1.IH" [OF st_def hash(1) hash(2) hash(3) st1_def True this]
      have "pending st' \<le> pending (getchar st1)" by simp
      then show ?thesis using a b le0 pending_getchar [of st1] by simp
    next
      case False
      have "st' = st1"
        using "1.prems" hash False unfolding gt st1_def [symmetric] by (simp add: Let_def)
      then show ?thesis using a b le0 by simp
    qed
  next
    case eof
    have "t = TOK_EOF \<and> st' = st"
      using "1.prems" eof unfolding gt by simp
    then show ?thesis using le0 by simp
  next
    case other
    have "st' = getchar st"
      using "1.prems" other unfolding gt by simp
    then show ?thesis using le0 pending_getchar_less [of st] other(4) by simp
  qed
qed

lemma pending_get_next_token: "pending (get_next_token strtod st) \<le> pending st"
  using pending_get_token [of strtod st]
  by (cases "get_token strtod st") (simp add: get_next_token_def)

lemma pending_get_next_token_less:
  "curr_token (get_next_token strtod st) \<noteq> TOK_EOF \<Longrightarrow> pending (get_next_token strtod st) < pending st"
  using pending_get_token [of strtod st]
  by (cases "get_token strtod st") (simp add: get_next_token_def)

section \<open>Syntax trees\<close>

datatype 'd AstExpr =
    NumLiteralExpr 'd
  | VarExpr string
  | BinaryExpr char "'d AstExpr" "'d AstExpr"
  | CallExpr string "'d AstExpr list"

datatype AstPrototype = AstPrototype string "string list"

datatype 'd AstFuncDef = AstFuncDef AstPrototype "'d AstExpr"

fun get_name :: "AstPrototype \<Rightarrow> string" where
  "get_name (AstPrototype name arg_names) = name"

section \<open>Parser\<close>

text \<open>\<open>log_error\<close> writes one line to the standard error stream.\<close>

definition log_error :: "string \<Rightarrow> 'd state \<Rightarrow> 'd state" where
  "log_error msg st = st\<lparr>stderr := stderr st @ [''Error: '' @ msg]\<rparr>"

text \<open>\<open>std::to_string\<close> on an \<open>int\<close>: the decimal digits, with a sign when negative.\<close>

fun string_of_nat :: "nat \<Rightarrow> string" where
  "string_of_nat n =
     (if n < 10 then [''0123456789'' ! n]
      else string_of_nat (n div 10) @ [''0123456789'' ! (n mod 10)])"

declare string_of_nat.simps [simp del]

definition to_string :: "int \<Rightarrow> string" where
  "to_string i = (if i < 0 then CHR ''-'' # string_of_nat (nat (- i)) else string_of_nat (nat i))"

text \<open>
  \<open>get_binary_precedence\<close> takes a \<open>char\<close>; the callers pass the \<open>int\<close> token, which is
  converted (\<open>char_of\<close> keeps the low eight bits).
\<close>

definition get_binary_precedence :: "char \<Rightarrow> int" where
  "get_binary_precedence op =
     (if op = CHR ''<'' then 10
      else if op = CHR ''+'' \<or> op = CHR ''-'' then 20
      else if op = CHR ''*'' then 40
      else - 1)"

text \<open>
  \<open>parse_number\<close>; its \<open>assert\<close>, like those of the other parse functions, is a debug
  check of what the caller has already tested.
\<close>

definition parse_number :: "(string \<Rightarrow> 'd) \<Rightarrow> 'd state \<Rightarrow> 'd AstExpr option \<times> 'd state" where
  "parse_number strtod st = (Some (NumLiteralExpr (number_val st)), get_next_token strtod st)"

text \<open>
  The expression parser is a family of mutually recursive functions with loops. Each call
  and each loop iteration takes one unit of fuel; the outer \<open>None\<close> says that the fuel
  ran out, \<open>Some (None, st)\<close> is a returned null pointer, \<open>Some (Some e, st)\<close> a tree.
  \<open>parse_identifier_args\<close> is the \<open>while (true)\<close> loop of \<open>parse_identifier\<close>, with the
  vector \<open>args\<close> passed along.
\<close>

fun parse_expr :: "(string \<Rightarrow> 'd) \<Rightarrow> nat \<Rightarrow> 'd state \<Rightarrow> ('d AstExpr option \<times> 'd state) option"
and parse_primary :: "(string \<Rightarrow> 'd) \<Rightarrow> nat \<Rightarrow> 'd state \<Rightarrow> ('d AstExpr option \<times> 'd state) option"
and parse_paren_expr :: "(string \<Rightarrow> 'd) \<Rightarrow> nat \<Rightarrow> 'd state \<Rightarrow> ('d AstExpr option \<times> 'd state) option"
and parse_identifier :: "(string \<Rightarrow> 'd) \<Rightarrow> nat \<Rightarrow> 'd state \<Rightarrow> ('d AstExpr option \<times> 'd state) option"
and parse_identifier_args ::
  "(string \<Rightarrow> 'd) \<Rightarrow> nat \<Rightarrow> 'd AstExpr list \<Rightarrow> 'd state \<Rightarrow> ('d AstExpr list option \<times> 'd state) option"
and parse_bin_op_rhs ::
  "(string \<Rightarrow> 'd) \<Rightarrow> nat \<Rightarrow> int \<Rightarrow> 'd AstExpr \<Rightarrow> 'd state \<Rightarrow> ('d AstExpr option \<times> 'd state) option"
where
  "parse_expr strtod 0 st = None"
| "parse_expr strtod (Suc n) st =
     (case parse_primary strtod n st of
        None \<Rightarrow> None
      | Some (None, st1) \<Rightarrow> Some (None, st1)
      | Some (Some lhs, st1) \<Rightarrow> parse_bin_op_rhs strtod n 0 lhs st1)"
| "parse_primary strtod 0 st = None"
| "parse_primary strtod (Suc n) st =
     (if curr_token st = TOK_IDENTIFIER then parse_identifier strtod n st
      else if curr_token st = TOK_NUMBER then Some (parse_number strtod st)
      else if curr_token st = int_of_char (CHR ''('') then parse_paren_expr strtod n st
      else Some (None, log_error (''Unexpected token with id '' @ to_string (curr_token st)) st))"
| "parse_paren_expr strtod 0 st = None"
| "parse_paren_expr strtod (Suc n) st =
     (case parse_expr strtod n (get_next_token strtod st) of
        None \<Rightarrow> None
      | Some (None, st1) \<Rightarrow> Some (None, st1)
      | Some (Some expr, st1) \<Rightarrow>
          if curr_token st1 \<noteq> int_of_char (CHR '')'') then Some (None, log_error (''Expected ')'' @ [CHR 0x27]) st1)
          else Some (Some expr, get_next_token strtod st1))"
| "parse_identifier strtod 0 st = None"
| "parse_identifier strtod (Suc n) st =
     (let id_name = identifier_string st;
          st1 = get_next_token strtod st
      in if curr_token st1 \<noteq> int_of_char (CHR ''('') then Some (Some (VarExpr id_name), st1)
         else
           (let st2 = get_next_token strtod st1
            in if curr_token st2 \<noteq> int_of_char (CHR '')'') then
                 (case parse_identifier_args strtod n [] st2 of
                    None \<Rightarrow> None
                  | Some (None, st3) \<Rightarrow> Some (None, st3)
                  | Some (Some args, st3) \<Rightarrow>
                      Some (Some (CallExpr id_name args), get_next_token strtod st3))
               else Some (Some (CallExpr id_name []), get_next_token strtod st2)))"
| "parse_identifier_args strtod 0 args st = None"
| "parse_identifier_args strtod (Suc n) args st =
     (case parse_expr strtod n st of
        None \<Rightarrow> None
      | Some (None, st1) \<Rightarrow> Some (None, st1)
      | Some (Some arg, st1) \<Rightarrow>
          if curr_token st1 = int_of_char (CHR '')'') then Some (Some (args @ [arg]), st1)
          else if curr_token st1 \<noteq> int_of_char (CHR '','') then
            Some (None, log_error (''Expected ',' or ')'' @ [CHR 0x27]) st1)
          else parse_identifier_args strtod n (args @ [arg]) st1)"
| "parse_bin_op_rhs strtod 0 lhs_prec lhs st = None"
| "parse_bin_op_rhs strtod (Suc n) lhs_prec lhs st =
     (let curr_prec = get_binary_precedence (char_of (curr_token st))
      in if curr_prec < lhs_prec then Some (Some lhs, st)
         else
           (let op = char_of (curr_token st);
                st1 = get_next_token strtod st
            in case parse_primary strtod n st1 of
                 None \<Rightarrow> None
               | Some (None, st2) \<Rightarrow> Some (None, st2)
               | Some (Some rhs, st2) \<Rightarrow>
                   (let next_prec = get_binary_precedence (char_of (curr_token st2))
                    in if curr_prec < next_prec then
                         (case parse_bin_op_rhs strtod n (curr_prec + 1) rhs st2 of
                            None \<Rightarrow> None
                          | Some (None, st3) \<Rightarrow> Some (None, st3)
                          | Some (Some rhs', st3) \<Rightarrow>
                              parse_bin_op_rhs strtod n lhs_prec (BinaryExpr op lhs rhs') st3)
                       else parse_bin_op_rhs strtod n lhs_prec (BinaryExpr op lhs rhs) st2)))"

declare parse_expr.simps [simp del] parse_primary.simps [simp del]
  parse_paren_expr.simps [simp del] parse_identifier.simps [simp del]
  parse_identifier_args.simps [simp del] parse_bin_op_rhs.simps [simp del]

text \<open>
  \<open>parse_prototype\<close> occurs twice in the source. In the first copy (lines 290 to 311)
  the body of the parameter loop is \<open>args.push_back(identifier_string);\<close> alone: the
  cursor is not advanced. The loop is modelled with fuel, since it need not end.
\<close>

fun parse_prototype_args_v1 :: "nat \<Rightarrow> string list \<Rightarrow> 'd state \<Rightarrow> (string list \<times> 'd state) option" where
  "parse_prototype_args_v1 0 args st = None"
| "parse_prototype_args_v1 (Suc n) args st =
     (if curr_token st = TOK_IDENTIFIER
      then parse_prototype_args_v1 n (args @ [identifier_string st]) st
      else Some (args, st))"

definition parse_prototype_v1 ::
  "(string \<Rightarrow> 'd) \<Rightarrow> nat \<Rightarrow> 'd state \<Rightarrow> (AstPrototype option \<times> 'd state) option" where
  "parse_prototype_v1 strtod fuel st =
     (let func_name = identifier_string st;
          st1 = get_next_token strtod st
      in if curr_token st1 \<noteq> int_of_char (CHR ''('') then
           Some (None, log_error (''Expected '('' @ [CHR 0x27]) st1)
         else
           (case parse_prototype_args_v1 fuel [] (get_next_token strtod st1) of
              None \<Rightarrow> None
            | Some (args, st3) \<Rightarrow>
                if curr_token st3 \<noteq> int_of_char (CHR '')'') then
                  Some (None, log_error (''Expected '('' @ [CHR 0x27]) st3)
                else Some (Some (AstPrototype func_name args), get_next_token strtod st3)))"

text \<open>
  In the second copy (lines 844 to 866) the loop body also calls \<open>get_next_token\<close>.
  This loop always ends, and the function is total.
\<close>

function parse_prototype_args_v2 :: "(string \<Rightarrow> 'd) \<Rightarrow> string list \<Rightarrow> 'd state \<Rightarrow> string list \<times> 'd state" where
  "parse_prototype_args_v2 strtod args st =
     (if curr_token st = TOK_IDENTIFIER
      then parse_prototype_args_v2 strtod (args @ [identifier_string st]) (get_next_token strtod st)
      else (args, st))"
  by pat_completeness auto
termination
proof (relation "measure (\<lambda>(f, args, st). 2 * pending st + (if curr_token st = TOK_IDENTIFIER then 1 else 0))",
    goal_cases)
  case 1
  show ?case by simp
next
  case (2 strtod args st)
  show ?case
  proof (cases "curr_token (get_next_token strtod st) = TOK_IDENTIFIER")
    case True
    then have "pending (get_next_token strtod st) < pending st"
      by (intro pending_get_next_token_less) simp
    then show ?thesis using 2 by simp
  next
    case False
    then show ?thesis using 2 pending_get_next_token [of strtod st] by simp
  qed
qed

declare parse_prototype_args_v2.simps [simp del]

definition parse_prototype_v2 ::
  "(string \<Rightarrow> 'd) \<Rightarrow> 'd state \<Rightarrow> AstPrototype option \<times> 'd state" where
  "parse_prototype_v2 strtod st =
     (let func_name = identifier_string st;
          st1 = get_next_token strtod st
      in if curr_token st1 \<noteq> int_of_char (CHR ''('') then
           (None, log_error (''Expected '('' @ [CHR 0x27]) st1)
         else
           (case parse_prototype_args_v2 strtod [] (get_next_token strtod st1) of
              (args, st3) \<Rightarrow>
                if curr_token st3 \<noteq> int_of_char (CHR '')'') then
                  (None, log_error (''Expected '('' @ [CHR 0x27]) st3)
                else (Some (AstPrototype func_name args), get_next_token strtod st3)))"

section \<open>Lowering (the copy of src/parser.cpp with the codegen methods)\<close>

text \<open>
  The repository calls LLVM; the model keeps of LLVM what these calls can observe.
  A \<open>Value*\<close> is a term that says how the value was made; a null pointer is \<open>None\<close>.
  Instructions are values too. \<open>AstPointer\<close> is an \<open>AstExpr\<close> pointer stored where a
  \<open>Value*\<close> is expected, which is what line 610 of the source does.
\<close>

datatype 'd Value =
    ConstantFP 'd
  | Argument nat nat
  | FAdd "'d Value" "'d Value"
  | FMul "'d Value" "'d Value"
  | FSub "'d Value" "'d Value"
  | FCmpULT "'d Value" "'d Value"
  | UIToFP "'d Value"
  | CallInst nat "'d Value list"
  | RetInst "'d Value option"
  | AstPointer "'d AstExpr"

text \<open>
  A function of the module: its name (empty for an unnamed function), the names of its
  arguments, and its basic blocks, each a list of instructions. A \<open>Function*\<close> is a
  handle, a number given out when the function is created.
\<close>

record 'd Function =
  fn_name :: string
  arg_names :: "string list"
  blocks :: "'d Value list list"

text \<open>
  The statics of the lowering pass: the module (its functions in order, and the next free
  handle), the insertion point of the builder (function handle and block index), the
  scope table \<open>named_values\<close> (a \<open>std::map\<close> whose entries may hold a null pointer), and
  the standard error stream. \<open>emitted\<close> lists every instruction the builder was asked to
  create, in order, whether or not its insertion point still exists.
\<close>

record 'd codegen_state =
  module_functions :: "(nat \<times> 'd Function) list"
  next_handle :: nat
  insert_point :: "(nat \<times> nat) option"
  emitted :: "'d Value list"
  named_values :: "string \<rightharpoonup> 'd Value option"
  cg_stderr :: "string list"

definition log_error_val :: "string \<Rightarrow> 'd codegen_state \<Rightarrow> 'd codegen_state" where
  "log_error_val msg st = st\<lparr>cg_stderr := cg_stderr st @ [''Error: '' @ msg]\<rparr>"

text \<open>
  \<open>Module::getFunction\<close>: the function registered under the name; unnamed functions are
  not in the symbol table.
\<close>

definition getFunction :: "'d codegen_state \<Rightarrow> string \<Rightarrow> (nat \<times> 'd Function) option" where
  "getFunction st name =
     (if name = [] then None else find (\<lambda>(h, f). fn_name f = name) (module_functions st))"

text \<open>
  The builder inserts an instruction at its insertion point. When the function of the
  insertion point has been erased, the insertion is undefined behaviour in LLVM; the model
  records the instruction in \<open>emitted\<close> and leaves the module as it is.
\<close>

definition builder_insert :: "'d Value \<Rightarrow> 'd codegen_state \<Rightarrow> 'd codegen_state" where
  "builder_insert i st =
     st\<lparr>emitted := emitted st @ [i],
        module_functions :=
          (case insert_point st of
             None \<Rightarrow> module_functions st
           | Some (h, b) \<Rightarrow>
               map (\<lambda>(h', f). if h' = h then (h', f\<lparr>blocks := (blocks f)[b := blocks f ! b @ [i]]\<rparr>)
                               else (h', f))
                 (module_functions st))\<rparr>"

definition create :: "'d Value \<Rightarrow> 'd codegen_state \<Rightarrow> 'd Value option \<times> 'd codegen_state" where
  "create i st = (Some i, builder_insert i st)"

text \<open>
  The expression nodes. \<open>BinaryExpr\<close> lowers both operands before it tests either result.
  The message of its default case is written in the source as a sum of a string literal
  and characters, which is not a string concatenation in C++; the model logs the text
  that the sum is meant to spell. \<open>CallExpr\<close> pushes each element of \<open>args\<close> itself onto \<open>arg_vals\<close>
  (\<open>arg_vals.push_back(arg)\<close>): no argument is lowered, and no element is null.
\<close>

fun AstExpr_codegen :: "'d AstExpr \<Rightarrow> 'd codegen_state \<Rightarrow> 'd Value option \<times> 'd codegen_state" where
  "AstExpr_codegen (NumLiteralExpr v) st = (Some (ConstantFP v), st)"
| "AstExpr_codegen (VarExpr name) st =
     (case named_values st name of
        None \<Rightarrow>
          (None, log_error_val (''Attempted access of undefined variable '' @ name)
                   (st\<lparr>named_values := (named_values st)(name \<mapsto> None)\<rparr>))
      | Some None \<Rightarrow> (None, log_error_val (''Attempted access of undefined variable '' @ name) st)
      | Some (Some val) \<Rightarrow> (Some val, st))"
| "AstExpr_codegen (BinaryExpr kld_op lhs rhs) st =
     (case AstExpr_codegen lhs st of
        (left, st1) \<Rightarrow>
          (case AstExpr_codegen rhs st1 of
             (right, st2) \<Rightarrow>
               (case left of
                  None \<Rightarrow> (None, st2)
                | Some l \<Rightarrow>
                    (case right of
                       None \<Rightarrow> (None, st2)
                     | Some r \<Rightarrow>
                         if kld_op = CHR ''+'' then create (FAdd l r) st2
                         else if kld_op = CHR ''*'' then create (FMul l r) st2
                         else if kld_op = CHR ''-'' then create (FSub l r) st2
                         else if kld_op = CHR ''<'' then
                           create (UIToFP (FCmpULT l r)) (builder_insert (FCmpULT l r) st2)
                         else (None, log_error_val (''Invalid binary operator ''
                                 @ [CHR 0x27, kld_op, CHR 0x27]) st2)))))"
| "AstExpr_codegen (CallExpr callee_name args) st =
     (case getFunction st callee_name of
        None \<Rightarrow> (None, log_error_val ''Unknown function being called'' st)
      | Some (h, callee_func) \<Rightarrow>
          if length (arg_names callee_func) \<noteq> length args then
            (None, log_error_val ''Wrong number of arguments provided in function call'' st)
          else create (CallInst h (map AstPointer args)) st)"

text \<open>
  LLVM renames a value whose name is already taken in its symbol table. How it picks the
  new name is not part of this repository: \<open>uniq\<close>, a parameter, gives the name chosen for
  a requested name that clashes with the names in use.
\<close>

definition set_arg_names :: "(string set \<Rightarrow> string \<Rightarrow> string) \<Rightarrow> string list \<Rightarrow> string list" where
  "set_arg_names uniq names =
     foldl (\<lambda>acc a. acc @ [if a \<noteq> [] \<and> a \<in> set acc then uniq (set acc) a else a]) [] names"

text \<open>\<open>AstPrototype::codegen\<close>: \<open>Function::Create\<close>, then the loop that names the arguments.\<close>

fun AstPrototype_codegen ::
  "(string set \<Rightarrow> string \<Rightarrow> string) \<Rightarrow> AstPrototype \<Rightarrow> 'd codegen_state
     \<Rightarrow> (nat \<times> 'd Function) option \<times> 'd codegen_state" where
  "AstPrototype_codegen uniq (AstPrototype name args) st =
     (let taken = set (map (\<lambda>(h, f). fn_name f) (module_functions st));
          func = \<lparr>fn_name = (if name \<noteq> [] \<and> name \<in> taken then uniq taken name else name),
                  arg_names = set_arg_names uniq args,
                  blocks = []\<rparr>
      in (Some (next_handle st, func),
          st\<lparr>module_functions := module_functions st @ [(next_handle st, func)],
             next_handle := Suc (next_handle st)\<rparr>))"

text \<open>
  Lines 668 to 674 of \<open>AstFuncDef::codegen\<close>: the entry block is created and made the
  insertion point, and \<open>named_values\<close> is cleared and filled from the arguments of the
  function.
\<close>

definition AstFuncDef_entry :: "nat \<times> 'd Function \<Rightarrow> 'd codegen_state \<Rightarrow> 'd codegen_state" where
  "AstFuncDef_entry func st =
     (case func of
        (h, f) \<Rightarrow>
          st\<lparr>module_functions :=
               map (\<lambda>(h', f'). if h' = h then (h', f'\<lparr>blocks := blocks f' @ [[]]\<rparr>) else (h', f'))
                 (module_functions st),
             insert_point := Some (h, length (blocks f)),
             named_values :=
               foldl (\<lambda>nv (i, a). nv(a \<mapsto> Some (Argument h i))) Map.empty
                 (zip [0 ..< length (arg_names f)] (arg_names f))\<rparr>)"

definition eraseFromParent :: "nat \<Rightarrow> 'd codegen_state \<Rightarrow> 'd codegen_state" where
  "eraseFromParent h st =
     st\<lparr>module_functions := filter (\<lambda>(h', f). h' \<noteq> h) (module_functions st)\<rparr>"

text \<open>
  \<open>AstFuncDef::codegen\<close>. The variable \<open>func\<close> is the handle together with the function
  it points to at that time. After \<open>func.eraseFromParent()\<close> the source has no
  \<open>return\<close>: control goes on to \<open>CreateRet\<close>, to \<open>verifyFunction\<close> (whose result is
  dropped, so it has no part in the model) and to \<open>return func\<close>.
\<close>

fun AstFuncDef_codegen ::
  "(string set \<Rightarrow> string \<Rightarrow> string) \<Rightarrow> 'd AstFuncDef \<Rightarrow> 'd codegen_state
     \<Rightarrow> nat option \<times> 'd codegen_state" where
  "AstFuncDef_codegen uniq (AstFuncDef proto body) st =
     (case (case getFunction st (get_name proto) of
              Some func \<Rightarrow> (Some func, st)
            | None \<Rightarrow> AstPrototype_codegen uniq proto st) of
        (None, st1) \<Rightarrow> (None, st1)
      | (Some (h, f), st1) \<Rightarrow>
          if blocks f \<noteq> [] then (None, log_error_val ''Function body already defined.'' st1)
          else
            (case AstExpr_codegen body (AstFuncDef_entry (h, f) st1) of
               (body_retval, st2) \<Rightarrow>
                 (Some h,
                  builder_insert (RetInst body_retval)
                    (if body_retval = None then eraseFromParent h st2 else st2))))"

section \<open>Views used to state the properties\<close>

text \<open>
  The state in which the program starts: \<open>last_char\<close> is a space, \<open>curr_token\<close> is
  \<open>-69\<close>, and \<open>number_val\<close> is the \<open>double\<close> 69, here \<open>nv\<close>.
\<close>

definition initial_state :: "'d \<Rightarrow> string \<Rightarrow> 'd state" where
  "initial_state nv inp =
     \<lparr>last_char = CHR '' '', stdin = inp, identifier_string = [], number_val = nv,
      curr_token = - 69, stderr = []\<rparr>"

text \<open>The token of the data model: the returned code read together with its payload.\<close>

datatype 'd token = Eof | Def | Extern | Identifier string | Number 'd | Punct char

definition token_view :: "int \<Rightarrow> 'd state \<Rightarrow> 'd token" where
  "token_view t st =
     (if t = TOK_EOF then Eof
      else if t = TOK_DEF then Def
      else if t = TOK_EXTERN then Extern
      else if t = TOK_IDENTIFIER then Identifier (identifier_string st)
      else if t = TOK_NUMBER then Number (number_val st)
      else Punct (char_of t))"

text \<open>The tokens of \<open>n\<close> successive calls of \<open>get_token\<close>.\<close>

fun tokens :: "(string \<Rightarrow> 'd) \<Rightarrow> nat \<Rightarrow> 'd state \<Rightarrow> 'd token list" where
  "tokens strtod 0 st = []"
| "tokens strtod (Suc n) st =
     (case get_token strtod st of (t, st1) \<Rightarrow> token_view t st1 # tokens strtod n st1)"

text \<open>A module with no function, a builder with no insertion point, an empty scope.\<close>

definition empty_module :: "'d codegen_state" where
  "empty_module =
     \<lparr>module_functions = [], next_handle = 0, insert_point = None, emitted = [],
      named_values = Map.empty, cg_stderr = []\<rparr>"

text \<open>The function table of the module: handle, name and argument names of each function.\<close>

definition signatures :: "'d codegen_state \<Rightarrow> (nat \<times> string \<times> string list) list" where
  "signatures st = map (\<lambda>(h, f). (h, fn_name f, arg_names f)) (module_functions st)"

text \<open>A name is in scope when the scope table binds it to a value.\<close>

definition in_scope :: "'d codegen_state \<Rightarrow> string \<Rightarrow> bool" where
  "in_scope st x = (case named_values st x of Some (Some v) \<Rightarrow> True | _ \<Rightarrow> False)"

text \<open>A renaming policy for the runs below, in which no name clashes: the name is kept.\<close>

definition keep_name :: "string set \<Rightarrow> string \<Rightarrow> string" where
  "keep_name taken name = name"

text \<open>
  The value of the variable \<open>func\<close> of \<open>AstFuncDef::codegen\<close> after lines 656 to 660: the
  function found under the name of the prototype, or else the one created from it.
\<close>

definition func_of ::
  "(string set \<Rightarrow> string \<Rightarrow> string) \<Rightarrow> AstPrototype \<Rightarrow> 'd codegen_state
     \<Rightarrow> (nat \<times> 'd Function) option \<times> 'd codegen_state" where
  "func_of uniq proto st =
     (case getFunction st (get_name proto) of
        Some func \<Rightarrow> (Some func, st)
      | None \<Rightarrow> AstPrototype_codegen uniq proto st)"

text \<open>The parameter names written in a prototype.\<close>

fun parameters :: "AstPrototype \<Rightarrow> string list" where
  "parameters (AstPrototype name args) = args"

text \<open>
  The variable references that are lowered when an expression is lowered, in order: both
  operands of a binary node, and nothing inside the arguments of a call.
\<close>

fun lowered_vars :: "'d AstExpr \<Rightarrow> string list" where
  "lowered_vars (NumLiteralExpr v) = []"
| "lowered_vars (VarExpr name) = [name]"
| "lowered_vars (BinaryExpr kld_op lhs rhs) = lowered_vars lhs @ lowered_vars rhs"
| "lowered_vars (CallExpr callee_name args) = []"

text \<open>The line that \<open>VarExpr::codegen\<close> writes for a name that is not bound.\<close>

definition undefined_variable :: "string \<Rightarrow> string" where
  "undefined_variable x = ''Error: Attempted access of undefined variable '' @ x"

text \<open>
  The functions of a module after the instructions \<open>ins\<close> have been appended to block \<open>b\<close>
  of the function with handle \<open>h\<close>; and the relation between two states of which the
  second comes from the first by builder insertions at the point \<open>(h, b)\<close>.
\<close>

definition append_block :: "nat \<Rightarrow> nat \<Rightarrow> 'd Value list \<Rightarrow> (nat \<times> 'd Function) list \<Rightarrow> (nat \<times> 'd Function) list" where
  "append_block h b ins fs =
     map (\<lambda>(h', f). if h' = h then (h', f\<lparr>blocks := (blocks f)[b := blocks f ! b @ ins]\<rparr>) else (h', f)) fs"

definition grows :: "nat \<Rightarrow> nat \<Rightarrow> 'd codegen_state \<Rightarrow> 'd codegen_state \<Rightarrow> bool" where
  "grows h b st st' =
     (insert_point st' = insert_point st \<and> length (emitted st) \<le> length (emitted st') \<and>
      take (length (emitted st)) (emitted st') = emitted st \<and>
      module_functions st' =
        append_block h b (drop (length (emitted st)) (emitted st')) (module_functions st))"

text \<open>
  The tree of a chain \<open>e\<^sub>0 op\<^sub>0 e\<^sub>1 op\<^sub>1 \<dots> e\<^sub>i\<close> grouped to the left, where \<open>operand j\<close> is
  \<open>e\<^sub>j\<close> and \<open>op j\<close> is the operator after it.
\<close>

primrec left_assoc :: "(nat \<Rightarrow> char) \<Rightarrow> (nat \<Rightarrow> 'd AstExpr) \<Rightarrow> nat \<Rightarrow> 'd AstExpr" where
  "left_assoc op operand 0 = operand 0"
| "left_assoc op operand (Suc i) = BinaryExpr (op i) (left_assoc op operand i) (operand (Suc i))"

section \<open>Properties of the lexer\<close>

text \<open>Rules that run the lexer on a given input.\<close>

lemmas lex_simps = get_token.simps skip_space.simps read_identifier.simps read_number.simps
  skip_comment.simps getchar_def isspace_def isalpha_def isdigit_def isalnum_def int_of_char_def
  Let_def get_next_token_def initial_state_def

lemma tokens_numeral:
  "tokens strtod (numeral k) st =
     (case get_token strtod st of (t, st1) \<Rightarrow> token_view t st1 # tokens strtod (pred_numeral k) st1)"
  by (simp add: numeral_eq_Suc)

text \<open>
  Claim C9. Twelve calls of \<open>get_token\<close> on the input \<open>def foo(a b) a+b*2\<close>, from the
  state in which the program starts, return in this order: the keyword \<open>def\<close>, the
  identifier \<open>foo\<close>, \<open>(\<close>, the identifiers \<open>a\<close> and \<open>b\<close>, \<open>)\<close>, the identifier \<open>a\<close>,
  \<open>+\<close>, the identifier \<open>b\<close>, \<open>*\<close>, the number that \<open>strtod\<close> makes of the text \<open>2\<close>, and
  the end of the input. The blanks of the input give no token.
\<close>

theorem tokens_def_foo:
  "tokens strtod 12 (initial_state nv ''def foo(a b) a+b*2'') =
     [Def, Identifier ''foo'', Punct (CHR ''(''), Identifier ''a'', Identifier ''b'', Punct (CHR '')''),
      Identifier ''a'', Punct (CHR ''+''), Identifier ''b'', Punct (CHR ''*''), Number (strtod ''2''), Eof]"
  by (simp add: tokens_numeral lex_simps token_view_def char_of_def)

lemma int_of_char_EOF: "int_of_char c = - 1 \<Longrightarrow> c = EOF_char"
proof -
  assume a: "int_of_char c = - 1"
  have "(of_char c :: int) \<ge> 0"
    by (metis of_nat_of_char of_nat_0_le_iff)
  with a have "(of_char c :: int) = 255"
    by (auto simp: int_of_char_def split: if_splits)
  then have "(of_char c :: int) = of_char EOF_char" by simp
  then show ?thesis by (simp only: of_char_eq_iff)
qed

lemma skip_space_EOF: "last_char st = EOF_char \<Longrightarrow> skip_space st = st"
  by (subst skip_space.simps) (simp add: isspace_def)

lemma get_token_at_EOF: "last_char st = EOF_char \<Longrightarrow> get_token strtod st = (TOK_EOF, st)"
  by (subst get_token.simps) (simp add: skip_space_EOF isalpha_def isdigit_def)

lemma get_token_EOF_last_char:
  "get_token strtod st0 = (TOK_EOF, st') \<Longrightarrow> last_char st' = EOF_char"
proof (induction strtod st0 rule: get_token.induct)
  case (1 strtod st0)
  define st where "st = skip_space st0"
  note gt = get_token_cases [OF st_def, of strtod]
  consider (alpha) "isalpha (last_char st)"
    | (digit) "\<not> isalpha (last_char st)" "isdigit (last_char st)"
    | (hash) "\<not> isalpha (last_char st)" "\<not> isdigit (last_char st)" "last_char st = CHR ''#''"
    | (eof) "\<not> isalpha (last_char st)" "\<not> isdigit (last_char st)" "last_char st \<noteq> CHR ''#''"
        "last_char st = EOF_char"
    | (other) "\<not> isalpha (last_char st)" "\<not> isdigit (last_char st)" "last_char st \<noteq> CHR ''#''"
        "last_char st \<noteq> EOF_char"
    by blast
  then show ?case
  proof cases
    case alpha
    with "1.prems" show ?thesis
      unfolding gt by (simp add: Let_def split: if_splits)
  next
    case digit
    with "1.prems" show ?thesis
      unfolding gt by (simp add: Let_def split: prod.splits)
  next
    case hash
    define st1 where "st1 = skip_comment (getchar st)"
    show ?thesis
    proof (cases "last_char st1 \<noteq> EOF_char")
      case True
      have "get_token strtod (getchar st1) = (TOK_EOF, st')"
        using "1.prems" hash True unfolding gt st1_def [symmetric] by (simp add: Let_def)
      then show ?thesis
        by (rule "1.IH" [OF st_def hash(1) hash(2) hash(3) st1_def True])
    next
      case False
      have "st' = st1"
        using "1.prems" hash False unfolding gt st1_def [symmetric] by (simp add: Let_def)
      with False show ?thesis by simp
    qed
  next
    case eof
    have "st' = st" using "1.prems" eof unfolding gt by simp
    with eof show ?thesis by simp
  next
    case other
    have "int_of_char (last_char st) = - 1"
      using "1.prems" other unfolding gt by simp
    with other(4) show ?thesis using int_of_char_EOF by blast
  qed
qed

text \<open>
  Claim C10. Once \<open>get_token\<close> has returned \<open>TOK_EOF\<close>, in whatever state and on whatever
  input, the next call returns \<open>TOK_EOF\<close> again and leaves the state as it is, and so does
  every later call: \<open>n\<close> further calls give \<open>n\<close> end-of-input tokens. The witness is an
  input that ends inside a comment.
\<close>

theorem eof_absorbing:
  assumes "get_token strtod st = (TOK_EOF, st')"
  shows "get_token strtod st' = (TOK_EOF, st') \<and> tokens strtod n st' = replicate n Eof"
proof -
  have "last_char st' = EOF_char" using assms by (rule get_token_EOF_last_char)
  then have g: "get_token strtod st' = (TOK_EOF, st')" by (rule get_token_at_EOF)
  have "tokens strtod n st' = replicate n Eof"
    by (induction n) (simp_all add: g token_view_def)
  with g show ?thesis by simp
qed

theorem eof_absorbing_witness:
  "get_token (\<lambda>s. s) (initial_state ''69'' ''# c'') =
     (TOK_EOF, (initial_state ''69'' [])\<lparr>last_char := EOF_char\<rparr>) \<and>
   get_token (\<lambda>s. s) ((initial_state ''69'' [])\<lparr>last_char := EOF_char\<rparr>) =
     (TOK_EOF, (initial_state ''69'' [])\<lparr>last_char := EOF_char\<rparr>) \<and>
   tokens (\<lambda>s. s) 3 ((initial_state ''69'' [])\<lparr>last_char := EOF_char\<rparr>) = [Eof, Eof, Eof]"
proof -
  have g: "get_token (\<lambda>s. s) (initial_state ''69'' ''# c'') =
      (TOK_EOF, (initial_state ''69'' [])\<lparr>last_char := EOF_char\<rparr>)"
    by (simp add: lex_simps)
  from eof_absorbing [OF g, of 3] g show ?thesis
    by (simp add: numeral_3_eq_3 token_view_def)
qed

section \<open>Properties of the expression parser\<close>

text \<open>
  One turn of the loop of \<open>parse_bin_op_rhs\<close>: it stops when the precedence of the current
  token is below \<open>lhs_prec\<close>; it takes the primary as the right operand, unchanged, when
  the precedence of the token after it is not strictly greater than that of the operator
  just consumed; it regroups the right operand only when it is strictly greater.
\<close>

lemma bin_op_rhs_step:
  assumes "parse_primary strtod n (get_next_token strtod st) = Some (Some rhs, st2)"
    and "lhs_prec \<le> get_binary_precedence (char_of (curr_token st))"
    and "\<not> get_binary_precedence (char_of (curr_token st)) < get_binary_precedence (char_of (curr_token st2))"
  shows "parse_bin_op_rhs strtod (Suc n) lhs_prec lhs st =
           parse_bin_op_rhs strtod n lhs_prec (BinaryExpr (char_of (curr_token st)) lhs rhs) st2"
  using assms by (simp add: parse_bin_op_rhs.simps Let_def)

lemma bin_op_rhs_stop:
  assumes "get_binary_precedence (char_of (curr_token st)) < lhs_prec"
  shows "parse_bin_op_rhs strtod (Suc n) lhs_prec lhs st = Some (Some lhs, st)"
  using assms by (simp add: parse_bin_op_rhs.simps Let_def)

lemma bin_op_rhs_regroup:
  assumes "parse_primary strtod n (get_next_token strtod st) = Some (Some rhs, st2)"
    and "lhs_prec \<le> get_binary_precedence (char_of (curr_token st))"
    and "get_binary_precedence (char_of (curr_token st)) < get_binary_precedence (char_of (curr_token st2))"
    and "parse_bin_op_rhs strtod n (get_binary_precedence (char_of (curr_token st)) + 1) rhs st2 = Some (Some rhs', st3)"
  shows "parse_bin_op_rhs strtod (Suc n) lhs_prec lhs st =
           parse_bin_op_rhs strtod n lhs_prec (BinaryExpr (char_of (curr_token st)) lhs rhs') st3"
  using assms by (simp add: parse_bin_op_rhs.simps Let_def)

text \<open>
  Claim C1. Let the cursor stand at a primary \<open>a\<close>, followed by an operator, a primary
  \<open>b\<close>, a second operator of strictly higher precedence, a primary \<open>c\<close>, and then a token
  that is no binary operator. With enough fuel \<open>parse_expr\<close> returns the node of the first
  operator with \<open>a\<close> on the left and, on the right, the node of the second operator over \<open>b\<close>
  and \<open>c\<close>. For \<open>1+2*3\<close> this is \<open>BinaryExpr + 1 (BinaryExpr * 2 3)\<close> (the witness). The
  precedence table gives 10 for \<open><\<close>, 20 for \<open>+\<close> and \<open>-\<close>, 40 for \<open>*\<close> and \<open>-1\<close> for every
  other character.
\<close>

theorem higher_precedence_binds_tighter:
  fixes strtod :: "string \<Rightarrow> 'd"
  assumes a: "\<And>n. k \<le> n \<Longrightarrow> parse_primary strtod n s0 = Some (Some a, s1)"
    and b: "\<And>n. k \<le> n \<Longrightarrow> parse_primary strtod n (get_next_token strtod s1) = Some (Some b, s2)"
    and c: "\<And>n. k \<le> n \<Longrightarrow> parse_primary strtod n (get_next_token strtod s2) = Some (Some c, s3)"
    and op1: "0 \<le> get_binary_precedence (char_of (curr_token s1))"
    and op2: "get_binary_precedence (char_of (curr_token s1)) < get_binary_precedence (char_of (curr_token s2))"
    and stop: "get_binary_precedence (char_of (curr_token s3)) < 0"
    and fuel: "k + 4 \<le> n"
  shows "parse_expr strtod n s0 =
           Some (Some (BinaryExpr (char_of (curr_token s1)) a (BinaryExpr (char_of (curr_token s2)) b c)), s3) \<and>
         (\<forall>ch. get_binary_precedence ch =
            (if ch = CHR ''<'' then 10 else if ch = CHR ''+'' \<or> ch = CHR ''-'' then 20
             else if ch = CHR ''*'' then 40 else - 1))"
proof -
  define n3 where "n3 = n - 4"
  have n: "n = Suc (Suc (Suc (Suc n3)))" and k: "k \<le> n3"
    using fuel by (simp_all add: n3_def)
  have inner_last: "parse_bin_op_rhs strtod (Suc n3)
        (get_binary_precedence (char_of (curr_token s1)) + 1) (BinaryExpr (char_of (curr_token s2)) b c) s3 =
      Some (Some (BinaryExpr (char_of (curr_token s2)) b c), s3)"
    using op1 stop by (intro bin_op_rhs_stop) simp
  have inner: "parse_bin_op_rhs strtod (Suc (Suc n3))
        (get_binary_precedence (char_of (curr_token s1)) + 1) b s2 =
      Some (Some (BinaryExpr (char_of (curr_token s2)) b c), s3)"
  proof -
    have "parse_bin_op_rhs strtod (Suc (Suc n3))
        (get_binary_precedence (char_of (curr_token s1)) + 1) b s2 =
      parse_bin_op_rhs strtod (Suc n3)
        (get_binary_precedence (char_of (curr_token s1)) + 1) (BinaryExpr (char_of (curr_token s2)) b c) s3"
      using c [of "Suc n3"] k op2 stop op1 by (intro bin_op_rhs_step) simp_all
    with inner_last show ?thesis by simp
  qed
  have outer: "parse_bin_op_rhs strtod (Suc (Suc (Suc n3))) 0 a s1 =
      parse_bin_op_rhs strtod (Suc (Suc n3)) 0
        (BinaryExpr (char_of (curr_token s1)) a (BinaryExpr (char_of (curr_token s2)) b c)) s3"
    using b [of "Suc (Suc n3)"] k op1 op2 inner by (intro bin_op_rhs_regroup) simp_all
  have last: "parse_bin_op_rhs strtod (Suc (Suc n3)) 0
        (BinaryExpr (char_of (curr_token s1)) a (BinaryExpr (char_of (curr_token s2)) b c)) s3 =
      Some (Some (BinaryExpr (char_of (curr_token s1)) a (BinaryExpr (char_of (curr_token s2)) b c)), s3)"
    using stop by (intro bin_op_rhs_stop)
  have "parse_primary strtod (Suc (Suc (Suc n3))) s0 = Some (Some a, s1)"
    using a [of "Suc (Suc (Suc n3))"] k by simp
  then show ?thesis
    unfolding n using outer last by (simp add: parse_expr.simps get_binary_precedence_def)
qed

lemma parse_primary_number:
  "curr_token st = TOK_NUMBER \<Longrightarrow> 1 \<le> n \<Longrightarrow>
     parse_primary strtod n st = Some (Some (NumLiteralExpr (number_val st)), get_next_token strtod st)"
  by (cases n) (simp_all add: parse_primary.simps parse_number_def)

theorem higher_precedence_binds_tighter_witness:
  "get_binary_precedence (CHR ''+'') = 20 \<and> get_binary_precedence (CHR ''*'') = 40 \<and>
   map_option fst (parse_expr (\<lambda>s. s) 5 (get_next_token (\<lambda>s. s) (initial_state ''69'' ''1+2*3''))) =
     Some (Some (BinaryExpr (CHR ''+'') (NumLiteralExpr ''1'')
       (BinaryExpr (CHR ''*'') (NumLiteralExpr ''2'') (NumLiteralExpr ''3''))))"
proof -
  let ?sd = "\<lambda>s::string. s"
  define s0 where "s0 = get_next_token ?sd (initial_state ''69'' ''1+2*3'')"
  define s1 where "s1 = get_next_token ?sd s0"
  define s2 where "s2 = get_next_token ?sd (get_next_token ?sd s1)"
  define s3 where "s3 = get_next_token ?sd (get_next_token ?sd s2)"
  have v0: "s0 = \<lparr>last_char = CHR ''+'', stdin = ''2*3'', identifier_string = [], number_val = ''1'',
      curr_token = TOK_NUMBER, stderr = []\<rparr>"
    unfolding s0_def by (simp add: lex_simps)
  have v1: "s1 = \<lparr>last_char = CHR ''2'', stdin = ''*3'', identifier_string = [], number_val = ''1'',
      curr_token = 43, stderr = []\<rparr>"
    unfolding s1_def v0 by (simp add: lex_simps)
  have v1': "get_next_token ?sd s1 = \<lparr>last_char = CHR ''*'', stdin = ''3'', identifier_string = [],
      number_val = ''2'', curr_token = TOK_NUMBER, stderr = []\<rparr>"
    unfolding v1 by (simp add: lex_simps)
  have v2: "s2 = \<lparr>last_char = CHR ''3'', stdin = [], identifier_string = [], number_val = ''2'',
      curr_token = 42, stderr = []\<rparr>"
    unfolding s2_def v1' by (simp add: lex_simps)
  have v2': "get_next_token ?sd s2 = \<lparr>last_char = EOF_char, stdin = [], identifier_string = [],
      number_val = ''3'', curr_token = TOK_NUMBER, stderr = []\<rparr>"
    unfolding v2 by (simp add: lex_simps)
  have v3: "s3 = \<lparr>last_char = EOF_char, stdin = [], identifier_string = [], number_val = ''3'',
      curr_token = TOK_EOF, stderr = []\<rparr>"
    unfolding s3_def v2' by (simp add: lex_simps)
  have t0: "curr_token s0 = TOK_NUMBER" "number_val s0 = ''1''"
    and t1: "curr_token (get_next_token ?sd s1) = TOK_NUMBER" "number_val (get_next_token ?sd s1) = ''2''"
    and t2: "curr_token (get_next_token ?sd s2) = TOK_NUMBER" "number_val (get_next_token ?sd s2) = ''3''"
    by (simp_all add: v0 v1' v2')
  have a: "\<And>n. 1 \<le> n \<Longrightarrow> parse_primary ?sd n s0 = Some (Some (NumLiteralExpr ''1''), s1)"
    using parse_primary_number [of s0 _ ?sd] t0 unfolding s1_def by simp
  have b: "\<And>n. 1 \<le> n \<Longrightarrow>
      parse_primary ?sd n (get_next_token ?sd s1) = Some (Some (NumLiteralExpr ''2''), s2)"
    using parse_primary_number [of "get_next_token ?sd s1" _ ?sd] t1 unfolding s2_def by simp
  have c: "\<And>n. 1 \<le> n \<Longrightarrow>
      parse_primary ?sd n (get_next_token ?sd s2) = Some (Some (NumLiteralExpr ''3''), s3)"
    using parse_primary_number [of "get_next_token ?sd s2" _ ?sd] t2 unfolding s3_def by simp
  have p: "0 \<le> get_binary_precedence (char_of (curr_token s1))"
    "get_binary_precedence (char_of (curr_token s1)) < get_binary_precedence (char_of (curr_token s2))"
    "get_binary_precedence (char_of (curr_token s3)) < 0"
    by (simp_all add: v1 v2 v3 get_binary_precedence_def char_of_def)
  have "parse_expr ?sd 5 s0 =
      Some (Some (BinaryExpr (char_of (curr_token s1)) (NumLiteralExpr ''1'')
        (BinaryExpr (char_of (curr_token s2)) (NumLiteralExpr ''2'') (NumLiteralExpr ''3''))), s3)"
    by (rule higher_precedence_binds_tighter [where k = 1 and n = 5, OF a b c p, THEN conjunct1])
      simp_all
  then show ?thesis
    by (simp add: s0_def v1 v2 get_binary_precedence_def char_of_def)
qed

text \<open>Chains of operators whose precedence does not rise.\<close>

lemma left_assoc_loop:
  fixes strtod :: "string \<Rightarrow> 'd"
  assumes rest: "\<And>i n. i < m \<Longrightarrow> k \<le> n \<Longrightarrow>
        parse_primary strtod n (get_next_token strtod (S i)) = Some (Some (operand (Suc i)), S (Suc i))"
    and ops: "\<And>i. i < m \<Longrightarrow> 0 \<le> get_binary_precedence (char_of (curr_token (S i)))"
    and mono: "\<And>i. Suc i < m \<Longrightarrow>
        get_binary_precedence (char_of (curr_token (S (Suc i)))) \<le>
          get_binary_precedence (char_of (curr_token (S i)))"
    and stop: "get_binary_precedence (char_of (curr_token (S m))) < 0"
  shows "i \<le> m \<Longrightarrow> k + (m - i) + 1 \<le> n \<Longrightarrow>
     parse_bin_op_rhs strtod n 0 (left_assoc (\<lambda>j. char_of (curr_token (S j))) operand i) (S i) =
       Some (Some (left_assoc (\<lambda>j. char_of (curr_token (S j))) operand m), S m)"
proof (induction "m - i" arbitrary: i n)
  case 0
  then have "i = m" by simp
  moreover obtain n' where "n = Suc n'" using "0.prems" by (cases n) auto
  ultimately show ?case using stop by (simp add: bin_op_rhs_stop)
next
  case (Suc d)
  then have i: "i < m" and d: "d = m - Suc i" by simp_all
  obtain n' where n: "n = Suc n'" and n': "k + (m - Suc i) + 1 \<le> n'"
    using Suc.prems i by (cases n) auto
  have prim: "parse_primary strtod n' (get_next_token strtod (S i)) =
      Some (Some (operand (Suc i)), S (Suc i))"
    using rest [OF i, of n'] n' by simp
  have next_prec: "\<not> get_binary_precedence (char_of (curr_token (S i))) <
      get_binary_precedence (char_of (curr_token (S (Suc i))))"
  proof (cases "Suc i < m")
    case True
    then show ?thesis using mono [of i] by simp
  next
    case False
    with i have "Suc i = m" by simp
    then show ?thesis using stop ops [OF i] by simp
  qed
  have "parse_bin_op_rhs strtod (Suc n') 0 (left_assoc (\<lambda>j. char_of (curr_token (S j))) operand i) (S i) =
      parse_bin_op_rhs strtod n' 0
        (BinaryExpr (char_of (curr_token (S i))) (left_assoc (\<lambda>j. char_of (curr_token (S j))) operand i)
           (operand (Suc i))) (S (Suc i))"
    using prim next_prec ops [OF i] by (intro bin_op_rhs_step) simp_all
  also have "\<dots> = parse_bin_op_rhs strtod n' 0
      (left_assoc (\<lambda>j. char_of (curr_token (S j))) operand (Suc i)) (S (Suc i))"
    by simp
  also have "\<dots> = Some (Some (left_assoc (\<lambda>j. char_of (curr_token (S j))) operand m), S m)"
    using Suc.hyps(1) [OF d] i n' by simp
  finally show ?case unfolding n .
qed

text \<open>
  Claim C2. Let the cursor stand at a chain of \<open>m + 1\<close> primaries separated by \<open>m\<close> binary
  operators, each operator of a precedence not above that of the operator before it (so in
  particular a chain of operators of equal precedence), followed by a token that is no
  binary operator. With enough fuel \<open>parse_expr\<close> returns the chain grouped to the left:
  no right operand is regrouped, since the recursive call of \<open>parse_bin_op_rhs\<close> is made
  only when the precedence after the operand is strictly greater. For \<open>1-2-3\<close> this is
  \<open>BinaryExpr - (BinaryExpr - 1 2) 3\<close> (the witness).
\<close>

theorem left_assoc_chain:
  fixes strtod :: "string \<Rightarrow> 'd"
  assumes first: "\<And>n. k \<le> n \<Longrightarrow> parse_primary strtod n s0 = Some (Some (operand 0), S 0)"
    and rest: "\<And>i n. i < m \<Longrightarrow> k \<le> n \<Longrightarrow>
        parse_primary strtod n (get_next_token strtod (S i)) = Some (Some (operand (Suc i)), S (Suc i))"
    and ops: "\<And>i. i < m \<Longrightarrow> 0 \<le> get_binary_precedence (char_of (curr_token (S i)))"
    and mono: "\<And>i. Suc i < m \<Longrightarrow>
        get_binary_precedence (char_of (curr_token (S (Suc i)))) \<le>
          get_binary_precedence (char_of (curr_token (S i)))"
    and stop: "get_binary_precedence (char_of (curr_token (S m))) < 0"
    and fuel: "k + m + 2 \<le> n"
  shows "parse_expr strtod n s0 =
           Some (Some (left_assoc (\<lambda>j. char_of (curr_token (S j))) operand m), S m)"
proof -
  obtain n' where n: "n = Suc n'" and n': "k + m + 1 \<le> n'"
    using fuel by (cases n) auto
  have "parse_primary strtod n' s0 = Some (Some (operand 0), S 0)"
    using first [of n'] n' by simp
  moreover have "parse_bin_op_rhs strtod n' 0 (operand 0) (S 0) =
      Some (Some (left_assoc (\<lambda>j. char_of (curr_token (S j))) operand m), S m)"
    using left_assoc_loop [where i = 0 and n = n' and strtod = strtod and S = S
        and operand = operand and m = m and k = k, OF rest ops mono stop] n'
    by simp
  ultimately show ?thesis unfolding n by (simp add: parse_expr.simps)
qed

theorem left_assoc_chain_witness:
  "get_binary_precedence (CHR ''-'') = 20 \<and>
   map_option fst (parse_expr (\<lambda>s. s) 5 (get_next_token (\<lambda>s. s) (initial_state ''69'' ''1-2-3''))) =
     Some (Some (BinaryExpr (CHR ''-'')
       (BinaryExpr (CHR ''-'') (NumLiteralExpr ''1'') (NumLiteralExpr ''2'')) (NumLiteralExpr ''3'')))"
proof -
  let ?sd = "\<lambda>s::string. s"
  define s0 where "s0 = get_next_token ?sd (initial_state ''69'' ''1-2-3'')"
  define sA where "sA = get_next_token ?sd s0"
  define sB where "sB = get_next_token ?sd (get_next_token ?sd sA)"
  define sC where "sC = get_next_token ?sd (get_next_token ?sd sB)"
  define S where "S = (\<lambda>i::nat. if i = 0 then sA else if i = Suc 0 then sB else sC)"
  define operand :: "nat \<Rightarrow> string AstExpr" where "operand =
    (\<lambda>i. if i = 0 then NumLiteralExpr ''1'' else if i = Suc 0 then NumLiteralExpr ''2''
          else NumLiteralExpr ''3'')"
  have v0: "s0 = \<lparr>last_char = CHR ''-'', stdin = ''2-3'', identifier_string = [], number_val = ''1'',
      curr_token = TOK_NUMBER, stderr = []\<rparr>"
    unfolding s0_def by (simp add: lex_simps)
  have vA: "sA = \<lparr>last_char = CHR ''2'', stdin = ''-3'', identifier_string = [], number_val = ''1'',
      curr_token = 45, stderr = []\<rparr>"
    unfolding sA_def v0 by (simp add: lex_simps)
  have vA': "get_next_token ?sd sA = \<lparr>last_char = CHR ''-'', stdin = ''3'', identifier_string = [],
      number_val = ''2'', curr_token = TOK_NUMBER, stderr = []\<rparr>"
    unfolding vA by (simp add: lex_simps)
  have vB: "sB = \<lparr>last_char = CHR ''3'', stdin = [], identifier_string = [], number_val = ''2'',
      curr_token = 45, stderr = []\<rparr>"
    unfolding sB_def vA' by (simp add: lex_simps)
  have vB': "get_next_token ?sd sB = \<lparr>last_char = EOF_char, stdin = [], identifier_string = [],
      number_val = ''3'', curr_token = TOK_NUMBER, stderr = []\<rparr>"
    unfolding vB by (simp add: lex_simps)
  have vC: "sC = \<lparr>last_char = EOF_char, stdin = [], identifier_string = [], number_val = ''3'',
      curr_token = TOK_EOF, stderr = []\<rparr>"
    unfolding sC_def vB' by (simp add: lex_simps)
  have t: "curr_token s0 = TOK_NUMBER" "number_val s0 = ''1''"
    "curr_token (get_next_token ?sd sA) = TOK_NUMBER" "number_val (get_next_token ?sd sA) = ''2''"
    "curr_token (get_next_token ?sd sB) = TOK_NUMBER" "number_val (get_next_token ?sd sB) = ''3''"
    by (simp_all add: v0 vA' vB')
  have first: "\<And>n. 1 \<le> n \<Longrightarrow> parse_primary ?sd n s0 = Some (Some (operand 0), S 0)"
    using parse_primary_number [of s0 _ ?sd] t unfolding S_def operand_def sA_def by simp
  have rest: "\<And>i n. i < 2 \<Longrightarrow> 1 \<le> n \<Longrightarrow>
      parse_primary ?sd n (get_next_token ?sd (S i)) = Some (Some (operand (Suc i)), S (Suc i))"
  proof -
    fix i n :: nat
    assume "i < 2" and n: "1 \<le> n"
    then consider "i = 0" | "i = Suc 0" by linarith
    then show "parse_primary ?sd n (get_next_token ?sd (S i)) = Some (Some (operand (Suc i)), S (Suc i))"
    proof cases
      case 1
      show ?thesis
        using parse_primary_number [of "get_next_token ?sd sA" n ?sd] n t
        unfolding 1 S_def operand_def sB_def by simp
    next
      case 2
      show ?thesis
        using parse_primary_number [of "get_next_token ?sd sB" n ?sd] n t
        unfolding 2 S_def operand_def sC_def by simp
    qed
  qed
  have ops: "\<And>i. i < 2 \<Longrightarrow> 0 \<le> get_binary_precedence (char_of (curr_token (S i)))"
  proof -
    fix i :: nat
    assume "i < 2"
    then consider "i = 0" | "i = Suc 0" by linarith
    then show "0 \<le> get_binary_precedence (char_of (curr_token (S i)))"
      by cases (simp_all add: S_def vA vB get_binary_precedence_def char_of_def)
  qed
  have mono: "\<And>i. Suc i < 2 \<Longrightarrow>
      get_binary_precedence (char_of (curr_token (S (Suc i)))) \<le>
        get_binary_precedence (char_of (curr_token (S i)))"
  proof -
    fix i :: nat
    assume "Suc i < 2"
    then have "i = 0" by linarith
    then show "get_binary_precedence (char_of (curr_token (S (Suc i)))) \<le>
        get_binary_precedence (char_of (curr_token (S i)))"
      by (simp add: S_def vA vB)
  qed
  have stop: "get_binary_precedence (char_of (curr_token (S 2))) < 0"
    by (simp add: S_def vC get_binary_precedence_def char_of_def)
  have "parse_expr ?sd 5 s0 =
      Some (Some (left_assoc (\<lambda>j. char_of (curr_token (S j))) operand 2), S 2)"
    by (rule left_assoc_chain [where k = 1 and m = 2 and n = 5, OF first rest ops mono stop]) simp_all
  moreover have "left_assoc (\<lambda>j. char_of (curr_token (S j))) operand 2 =
      BinaryExpr (CHR ''-'') (BinaryExpr (CHR ''-'') (NumLiteralExpr ''1'') (NumLiteralExpr ''2''))
        (NumLiteralExpr ''3'')"
    by (simp add: numeral_2_eq_2 S_def operand_def vA vB char_of_def)
  ultimately show ?thesis
    by (simp add: s0_def get_binary_precedence_def)
qed

lemmas parse_simps = parse_expr.simps parse_primary.simps parse_paren_expr.simps
  parse_identifier.simps parse_identifier_args.simps parse_bin_op_rhs.simps
  parse_number_def get_binary_precedence_def char_of_def log_error_def

text \<open>
  Claim C3. The claim says that a call with two arguments, such as \<open>f(1, 2)\<close>, parses to
  a call node. The loop of \<open>parse_identifier\<close> tests for the comma but does not step over
  it, so the next turn parses an expression that starts at the comma: with any fuel from 5
  on, \<open>parse_identifier\<close> on \<open>f(1, 2)\<close> returns a null pointer, the cursor still on the
  comma (token 44), and one diagnostic. Calls with no argument and with one argument do
  parse (the two lemmas after the theorem).
\<close>

theorem two_argument_call_fails:
  "parse_identifier strtod (n + 5) (get_next_token strtod (initial_state nv ''f(1, 2)'')) =
     Some (None,
       \<lparr>last_char = CHR '' '', stdin = ''2)'', identifier_string = ''f'', number_val = strtod ''1'',
        curr_token = 44, stderr = [''Error: Unexpected token with id 44'']\<rparr>)"
proof -
  have fuel: "n + 5 = Suc (Suc (Suc (Suc (Suc n))))" by simp
  show ?thesis
    unfolding fuel by (simp add: lex_simps parse_simps to_string_def string_of_nat.simps)
qed

lemma one_argument_call_parses:
  "parse_identifier strtod (n + 4) (get_next_token strtod (initial_state nv ''f(1)'')) =
     Some (Some (CallExpr ''f'' [NumLiteralExpr (strtod ''1'')]),
       \<lparr>last_char = EOF_char, stdin = [], identifier_string = ''f'', number_val = strtod ''1'',
        curr_token = TOK_EOF, stderr = []\<rparr>)"
proof -
  have fuel: "n + 4 = Suc (Suc (Suc (Suc n)))" by simp
  show ?thesis
    unfolding fuel by (simp add: lex_simps parse_simps)
qed

lemma no_argument_call_parses:
  "parse_identifier strtod (n + 1) (get_next_token strtod (initial_state nv ''f()'')) =
     Some (Some (CallExpr ''f'' []),
       \<lparr>last_char = EOF_char, stdin = [], identifier_string = ''f'', number_val = nv,
        curr_token = TOK_EOF, stderr = []\<rparr>)"
  by (simp add: lex_simps parse_simps)

text \<open>
  In general: when an argument has been parsed and the cursor is on a comma, the loop
  returns a null pointer, with the diagnostic of the comma as an unexpected token.
\<close>

lemma comma_is_not_consumed:
  fixes strtod :: "string \<Rightarrow> 'd"
  assumes arg: "\<And>n. k \<le> n \<Longrightarrow> parse_expr strtod n st = Some (Some arg, st1)"
    and comma: "curr_token st1 = int_of_char (CHR '','')"
    and fuel: "k + 4 \<le> n"
  shows "parse_identifier_args strtod n args st =
           Some (None, log_error ''Unexpected token with id 44'' st1)"
proof -
  define n4 where "n4 = n - 4"
  have n: "n = Suc (Suc (Suc (Suc n4)))" and k: "k \<le> n4"
    using fuel by (simp_all add: n4_def)
  have c: "curr_token st1 = 44"
    using comma by (simp add: int_of_char_def)
  have "parse_primary strtod (Suc n4) st1 = Some (None, log_error ''Unexpected token with id 44'' st1)"
    by (simp add: parse_primary.simps c int_of_char_def to_string_def string_of_nat.simps)
  then have "parse_expr strtod (Suc (Suc n4)) st1 =
      Some (None, log_error ''Unexpected token with id 44'' st1)"
    by (simp add: parse_expr.simps)
  then have "parse_identifier_args strtod (Suc (Suc (Suc n4))) (args @ [arg]) st1 =
      Some (None, log_error ''Unexpected token with id 44'' st1)"
    by (simp add: parse_identifier_args.simps)
  moreover have "parse_expr strtod (Suc (Suc (Suc n4))) st = Some (Some arg, st1)"
    using arg [of "Suc (Suc (Suc n4))"] k by simp
  ultimately show ?thesis
    unfolding n by (simp add: parse_identifier_args.simps c int_of_char_def)
qed

lemma parse_prototype_args_v1_stuck:
  "curr_token st = TOK_IDENTIFIER \<Longrightarrow> parse_prototype_args_v1 n args st = None"
  by (induction n arbitrary: args) simp_all

text \<open>
  Claim C6. The claim says that \<open>parse_prototype\<close> ends on a prototype with at least one
  parameter. The first copy of the function (lines 290 to 311) does not: once the cursor
  is on a parameter name it stays there, and the loop has no exit. On \<open>foo(a)\<close> no amount
  of fuel makes it return. The second copy (lines 844 to 866) advances, is a total
  function, and returns the prototype (the lemma after the theorem).
\<close>

theorem parse_prototype_v1_never_returns:
  "parse_prototype_v1 strtod n (get_next_token strtod (initial_state nv ''foo(a)'')) = None"
proof -
  define st where "st = get_next_token strtod (get_next_token strtod
    (get_next_token strtod (initial_state nv ''foo(a)'')))"
  have "curr_token st = TOK_IDENTIFIER"
    unfolding st_def by (simp add: lex_simps)
  then have "parse_prototype_args_v1 n [] st = None"
    by (rule parse_prototype_args_v1_stuck)
  moreover have "curr_token (get_next_token strtod (get_next_token strtod (initial_state nv ''foo(a)''))) = 40"
    by (simp add: lex_simps)
  ultimately show ?thesis
    unfolding parse_prototype_v1_def st_def by (simp add: int_of_char_def)
qed

lemma parse_prototype_v2_returns:
  "parse_prototype_v2 strtod (get_next_token strtod (initial_state nv ''foo(a b)'')) =
     (Some (AstPrototype ''foo'' [''a'', ''b'']),
      \<lparr>last_char = EOF_char, stdin = [], identifier_string = ''b'', number_val = nv,
       curr_token = TOK_EOF, stderr = []\<rparr>)"
  by (simp add: parse_prototype_v2_def parse_prototype_args_v2.simps lex_simps)

text \<open>
  The second copy on any prototype: when the name is followed by \<open>(\<close>, by \<open>N\<close> identifiers
  and by \<open>)\<close>, it returns the name and the \<open>N\<close> identifiers in order, and leaves the cursor
  after the \<open>)\<close>.
\<close>

lemma parse_prototype_args_v2_run:
  fixes strtod :: "string \<Rightarrow> 'd"
  assumes params: "\<And>i. i < N \<Longrightarrow> curr_token ((get_next_token strtod ^^ i) t) = TOK_IDENTIFIER"
    and close: "curr_token ((get_next_token strtod ^^ N) t) \<noteq> TOK_IDENTIFIER"
  shows "i \<le> N \<Longrightarrow>
     parse_prototype_args_v2 strtod args ((get_next_token strtod ^^ i) t) =
       (args @ map (\<lambda>j. identifier_string ((get_next_token strtod ^^ j) t)) [i ..< N],
        (get_next_token strtod ^^ N) t)"
proof (induction "N - i" arbitrary: i args)
  case 0
  then have "i = N" by simp
  then show ?case
    using close by (subst parse_prototype_args_v2.simps) simp
next
  case (Suc d)
  then have i: "i < N" and d: "d = N - Suc i" by simp_all
  have "parse_prototype_args_v2 strtod args ((get_next_token strtod ^^ i) t) =
      parse_prototype_args_v2 strtod (args @ [identifier_string ((get_next_token strtod ^^ i) t)])
        ((get_next_token strtod ^^ Suc i) t)"
    using params [OF i] by (subst parse_prototype_args_v2.simps) simp
  also have "\<dots> = ((args @ [identifier_string ((get_next_token strtod ^^ i) t)]) @
      map (\<lambda>j. identifier_string ((get_next_token strtod ^^ j) t)) [Suc i ..< N],
      (get_next_token strtod ^^ N) t)"
    using Suc.hyps(1) [OF d] i by simp
  finally show ?case
    using i by (simp add: upt_conv_Cons)
qed

lemma parse_prototype_v2_params:
  fixes strtod :: "string \<Rightarrow> 'd"
  assumes open_paren: "curr_token (get_next_token strtod st) = int_of_char (CHR ''('')"
    and t: "t = get_next_token strtod (get_next_token strtod st)"
    and params: "\<And>i. i < N \<Longrightarrow> curr_token ((get_next_token strtod ^^ i) t) = TOK_IDENTIFIER"
    and close: "curr_token ((get_next_token strtod ^^ N) t) = int_of_char (CHR '')'')"
  shows "parse_prototype_v2 strtod st =
     (Some (AstPrototype (identifier_string st)
        (map (\<lambda>j. identifier_string ((get_next_token strtod ^^ j) t)) [0 ..< N])),
      get_next_token strtod ((get_next_token strtod ^^ N) t))"
proof -
  have "curr_token ((get_next_token strtod ^^ N) t) \<noteq> TOK_IDENTIFIER"
    using close by (simp add: int_of_char_def)
  from parse_prototype_args_v2_run [OF params this, of 0 "[]"]
  have "parse_prototype_args_v2 strtod [] t =
      (map (\<lambda>j. identifier_string ((get_next_token strtod ^^ j) t)) [0 ..< N],
       (get_next_token strtod ^^ N) t)"
    by simp
  then show ?thesis
    using open_paren close by (simp add: parse_prototype_v2_def Let_def t [symmetric])
qed

section \<open>Properties of the lowering pass\<close>

lemma named_values_builder_insert [simp]: "named_values (builder_insert i st) = named_values st"
  by (simp add: builder_insert_def)

lemma named_values_log_error_val [simp]: "named_values (log_error_val m st) = named_values st"
  by (simp add: log_error_val_def)

lemma in_scope_builder_insert [simp]: "in_scope (builder_insert i st) x = in_scope st x"
  by (simp add: in_scope_def)

lemma in_scope_log_error_val [simp]: "in_scope (log_error_val m st) x = in_scope st x"
  by (simp add: in_scope_def)

lemma in_scope_create [simp]: "in_scope (snd (create i st)) x = in_scope st x"
  by (simp add: create_def)

lemma in_scope_codegen: "in_scope (snd (AstExpr_codegen e st)) x = in_scope st x"
proof (induction e arbitrary: st)
  case (NumLiteralExpr v)
  show ?case by simp
next
  case (VarExpr name)
  show ?case
    by (cases "named_values st name"; cases "the (named_values st name)")
       (auto simp: in_scope_def)
next
  case (BinaryExpr op l r)
  obtain lv st1 where l: "AstExpr_codegen l st = (lv, st1)" by (cases "AstExpr_codegen l st")
  obtain rv st2 where r: "AstExpr_codegen r st1 = (rv, st2)" by (cases "AstExpr_codegen r st1")
  have "in_scope st2 x = in_scope st x"
    using BinaryExpr.IH(1) [of st] BinaryExpr.IH(2) [of st1] l r by simp
  then show ?case
    using l r by (cases lv; cases rv) simp_all
next
  case (CallExpr callee args)
  show ?case
    by (cases "getFunction st callee") (auto split: prod.splits)
qed

lemma var_codegen_iff: "(fst (AstExpr_codegen (VarExpr x) st) \<noteq> None) = in_scope st x"
  by (cases "named_values st x"; cases "the (named_values st x)") (auto simp: in_scope_def)

lemma var_codegen_stderr:
  "cg_stderr (snd (AstExpr_codegen (VarExpr x) st)) =
     cg_stderr st @ (if in_scope st x then [] else [''Error: Attempted access of undefined variable '' @ x])"
  by (cases "named_values st x"; cases "the (named_values st x)")
     (auto simp: in_scope_def log_error_val_def)

lemma fold_bind_args:
  "(case foldl (\<lambda>nv (i, a). nv(a \<mapsto> Some (Argument h i))) m ps x of Some (Some v) \<Rightarrow> True | _ \<Rightarrow> False) =
     (x \<in> snd ` set ps \<or> (case m x of Some (Some v) \<Rightarrow> True | _ \<Rightarrow> False))"
proof (induction ps arbitrary: m)
  case Nil
  show ?case by simp
next
  case (Cons p ps)
  obtain i a where p: "p = (i, a)" by (cases p)
  show ?case
    unfolding p using Cons.IH [of "m(a \<mapsto> Some (Argument h i))"] by auto
qed

lemma in_scope_entry: "in_scope (AstFuncDef_entry (h, f) st) x = (x \<in> set (arg_names f))"
proof -
  have "snd ` set (zip [0 ..< length (arg_names f)] (arg_names f)) = set (arg_names f)"
    by (metis length_upt diff_zero map_snd_zip set_map)
  then show ?thesis
    using fold_bind_args [of h Map.empty "zip [0 ..< length (arg_names f)] (arg_names f)" x]
    by (simp add: in_scope_def AstFuncDef_entry_def)
qed

lemma set_arg_names_acc:
  "distinct (acc @ names) \<Longrightarrow>
     foldl (\<lambda>acc a. acc @ [if a \<noteq> [] \<and> a \<in> set acc then uniq (set acc) a else a]) acc names =
       acc @ names"
  by (induction names arbitrary: acc) auto

lemma set_arg_names_distinct: "distinct names \<Longrightarrow> set_arg_names uniq names = names"
  using set_arg_names_acc [of "[]" names uniq] by (simp add: set_arg_names_def)

lemma signatures_builder_insert [simp]: "signatures (builder_insert i st) = signatures st"
  by (cases "insert_point st") (auto simp: signatures_def builder_insert_def)

lemma signatures_log_error_val [simp]: "signatures (log_error_val m st) = signatures st"
  by (simp add: signatures_def log_error_val_def)

lemma signatures_named_values [simp]: "signatures (st\<lparr>named_values := nv\<rparr>) = signatures st"
  by (simp add: signatures_def)

lemma signatures_create [simp]: "signatures (snd (create i st)) = signatures st"
  by (simp add: create_def)

lemma signatures_entry [simp]: "signatures (AstFuncDef_entry (h, f) st) = signatures st"
  by (auto simp: signatures_def AstFuncDef_entry_def)

lemma signatures_erase:
  "signatures (eraseFromParent h st) = filter (\<lambda>(k, n, a). k \<noteq> h) (signatures st)"
  by (simp add: signatures_def eraseFromParent_def filter_map comp_def case_prod_unfold)

lemma next_handle_builder_insert [simp]: "next_handle (builder_insert i st) = next_handle st"
  by (simp add: builder_insert_def)

lemma next_handle_log_error_val [simp]: "next_handle (log_error_val m st) = next_handle st"
  by (simp add: log_error_val_def)

lemma next_handle_create [simp]: "next_handle (snd (create i st)) = next_handle st"
  by (simp add: create_def)

lemma next_handle_entry [simp]: "next_handle (AstFuncDef_entry (h, f) st) = next_handle st"
  by (simp add: AstFuncDef_entry_def)

lemma next_handle_erase [simp]: "next_handle (eraseFromParent h st) = next_handle st"
  by (simp add: eraseFromParent_def)

lemma codegen_keeps_functions:
  "signatures (snd (AstExpr_codegen e st)) = signatures st \<and>
   next_handle (snd (AstExpr_codegen e st)) = next_handle st"
proof (induction e arbitrary: st)
  case (NumLiteralExpr v)
  show ?case by simp
next
  case (VarExpr name)
  show ?case
    by (cases "named_values st name"; cases "the (named_values st name)") auto
next
  case (BinaryExpr op l r)
  obtain lv st1 where l: "AstExpr_codegen l st = (lv, st1)" by (cases "AstExpr_codegen l st")
  obtain rv st2 where r: "AstExpr_codegen r st1 = (rv, st2)" by (cases "AstExpr_codegen r st1")
  have "signatures st2 = signatures st \<and> next_handle st2 = next_handle st"
    using BinaryExpr.IH(1) [of st] BinaryExpr.IH(2) [of st1] l r by simp
  then show ?case
    using l r by (cases lv; cases rv) simp_all
next
  case (CallExpr callee args)
  show ?case
    by (cases "getFunction st callee") (auto split: prod.splits)
qed

text \<open>Rules that run the lowering pass on a given program.\<close>

lemmas codegen_simps = getFunction_def set_arg_names_def AstFuncDef_entry_def builder_insert_def
  create_def log_error_val_def eraseFromParent_def empty_module_def Let_def

text \<open>Insertions by the builder, and what lowering an expression adds to a block.\<close>

lemma update_block_twice:
  "xs[b := xs[b := xs ! b @ ins] ! b @ js] = xs[b := xs ! b @ ins @ js]"
  by (cases "b < length xs") (simp_all add: list_update_beyond)

lemma append_block_Nil [simp]: "append_block h b [] fs = fs"
  by (induction fs) (auto simp: append_block_def)

lemma append_block_append:
  "append_block h b js (append_block h b ins fs) = append_block h b (ins @ js) fs"
  by (induction fs) (auto simp: append_block_def update_block_twice)

lemma find_map_same:
  "(\<And>x. P (g x) = P x) \<Longrightarrow> find P (map g xs) = map_option g (find P xs)"
  by (induction xs) simp_all

lemma getFunction_append_block:
  "getFunction (st\<lparr>module_functions := append_block h b ins (module_functions st)\<rparr>) name =
     map_option (\<lambda>(h', f). if h' = h then (h', f\<lparr>blocks := (blocks f)[b := blocks f ! b @ ins]\<rparr>) else (h', f))
       (getFunction st name)"
  unfolding getFunction_def append_block_def
  by (simp add: find_map_same case_prod_unfold)

lemma grows_refl [simp]: "grows h b st st"
  by (simp add: grows_def)

lemma grows_trans: "grows h b st st1 \<Longrightarrow> grows h b st1 st2 \<Longrightarrow> grows h b st st2"
proof -
  assume a: "grows h b st st1" and c: "grows h b st1 st2"
  define ks where "ks = drop (length (emitted st)) (emitted st1)"
  define js where "js = drop (length (emitted st1)) (emitted st2)"
  have i: "emitted st1 = emitted st @ ks"
    using a append_take_drop_id [of "length (emitted st)" "emitted st1"]
    by (simp add: grows_def ks_def)
  have j: "emitted st2 = emitted st1 @ js"
    using c append_take_drop_id [of "length (emitted st1)" "emitted st2"]
    by (simp add: grows_def js_def)
  have "module_functions st1 = append_block h b ks (module_functions st)"
    using a by (simp add: grows_def ks_def)
  moreover have "module_functions st2 = append_block h b js (module_functions st1)"
    using c by (simp add: grows_def js_def)
  ultimately have "module_functions st2 = append_block h b (ks @ js) (module_functions st)"
    by (simp add: append_block_append)
  then show ?thesis
    using a c i j by (simp add: grows_def)
qed

lemma grows_builder_insert:
  "insert_point st = Some (h, b) \<Longrightarrow> grows h b st (builder_insert i st)"
  by (simp add: grows_def builder_insert_def append_block_def)

lemma grows_log_error_val [simp]: "grows h b st (log_error_val m st)"
  by (simp add: grows_def log_error_val_def)

lemma grows_named_values [simp]: "grows h b st (st\<lparr>named_values := nv\<rparr>)"
  by (simp add: grows_def)

lemma grows_insert_point: "grows h b st st' \<Longrightarrow> insert_point st' = insert_point st"
  by (simp add: grows_def)

lemma codegen_grows:
  "insert_point st = Some (h, b) \<Longrightarrow> grows h b st (snd (AstExpr_codegen e st))"
proof (induction e arbitrary: st)
  case (NumLiteralExpr v)
  show ?case by simp
next
  case (VarExpr name)
  show ?case
    by (cases "named_values st name"; cases "the (named_values st name)")
       (auto intro: grows_trans [OF grows_named_values grows_log_error_val])
next
  case (BinaryExpr op l r)
  obtain lv st1 where l: "AstExpr_codegen l st = (lv, st1)" by (cases "AstExpr_codegen l st")
  obtain rv st2 where r: "AstExpr_codegen r st1 = (rv, st2)" by (cases "AstExpr_codegen r st1")
  have g1: "grows h b st st1" using BinaryExpr.IH(1) [OF BinaryExpr.prems] l by simp
  then have ip1: "insert_point st1 = Some (h, b)"
    using BinaryExpr.prems by (simp add: grows_def)
  have g12: "grows h b st1 st2" using BinaryExpr.IH(2) [OF ip1] r by simp
  have g2: "grows h b st st2" using g1 g12 by (rule grows_trans)
  have ip2: "insert_point st2 = Some (h, b)"
    using g12 ip1 by (simp add: grows_def)
  have ins: "\<And>i. grows h b st (builder_insert i st2)"
    using g2 grows_builder_insert [OF ip2] by (rule grows_trans)
  have ins2: "\<And>i j. grows h b st (builder_insert j (builder_insert i st2))"
  proof -
    fix i j
    have "insert_point (builder_insert i st2) = Some (h, b)"
      using ip2 by (simp add: builder_insert_def)
    from grows_trans [OF ins grows_builder_insert [OF this]]
    show "grows h b st (builder_insert j (builder_insert i st2))" .
  qed
  have err: "\<And>m. grows h b st (log_error_val m st2)"
    using g2 grows_log_error_val by (rule grows_trans)
  show ?case
    using l r g2 ins ins2 err by (cases lv; cases rv) (simp_all add: create_def)
next
  case (CallExpr callee args)
  show ?case
    using grows_builder_insert [OF CallExpr.prems]
    by (cases "getFunction st callee") (auto simp: create_def split: prod.splits)
qed

lemma cg_stderr_builder_insert [simp]: "cg_stderr (builder_insert i st) = cg_stderr st"
  by (simp add: builder_insert_def)

lemma codegen_success_silent:
  "fst (AstExpr_codegen e st) \<noteq> None \<Longrightarrow> cg_stderr (snd (AstExpr_codegen e st)) = cg_stderr st"
proof (induction e arbitrary: st)
  case (NumLiteralExpr v)
  show ?case by simp
next
  case (VarExpr name)
  then show ?case
    by (cases "named_values st name"; cases "the (named_values st name)") auto
next
  case (BinaryExpr op l r)
  obtain lv st1 where l: "AstExpr_codegen l st = (lv, st1)" by (cases "AstExpr_codegen l st")
  obtain rv st2 where r: "AstExpr_codegen r st1 = (rv, st2)" by (cases "AstExpr_codegen r st1")
  from BinaryExpr.prems l r have ok: "lv \<noteq> None" "rv \<noteq> None"
    by (cases lv; cases rv; simp)+
  have "cg_stderr st1 = cg_stderr st" using BinaryExpr.IH(1) [of st] l ok by simp
  moreover have "cg_stderr st2 = cg_stderr st1" using BinaryExpr.IH(2) [of st1] r ok by simp
  ultimately show ?case
    using BinaryExpr.prems l r ok
    by (cases lv; cases rv) (auto simp: create_def split: if_splits)
next
  case (CallExpr callee args)
  then show ?case
    by (cases "getFunction st callee") (auto simp: create_def split: prod.splits if_splits)
qed

text \<open>
  Claim C5, as amended. When the name of a definition denotes a function of the module
  that has a body, \<open>AstFuncDef::codegen\<close> returns a null pointer, writes the diagnostic
  \<open>Function body already defined.\<close>, and changes nothing else: the module holds the first
  definition as it was. When the name denotes a function without a body (a declaration),
  no function is created: the module gives out no new handle and the function table gets
  no new entry. When moreover the body lowers, in the scope made of the argument names of
  the declaration, the definition succeeds: the result is the handle of the declaration, the function table is the same,
  no diagnostic is written, and the function found under the name now has one block that
  holds the instructions of the body followed by the return of the value of the body. The
  witness lowers \<open>def foo(a) a\<close> and then \<open>def foo(a) a+1\<close>, and \<open>extern foo(a b)\<close> and then
  \<open>def foo(a b) a+b\<close>.
\<close>

theorem redefinition_rejected_reuse_defines:
  fixes st st' :: "'d codegen_state"
  shows
  "(getFunction st name = Some (h, f) \<and> blocks f \<noteq> [] \<longrightarrow>
      AstFuncDef_codegen uniq (AstFuncDef (AstPrototype name args) body) st =
        (None, st\<lparr>cg_stderr := cg_stderr st @ [''Error: Function body already defined.'']\<rparr>)) \<and>
   (getFunction st' name' = Some (h', f') \<and> blocks f' = [] \<longrightarrow>
      next_handle (snd (AstFuncDef_codegen uniq (AstFuncDef (AstPrototype name' args') body') st')) =
        next_handle st' \<and>
      set (signatures (snd (AstFuncDef_codegen uniq (AstFuncDef (AstPrototype name' args') body') st')))
        \<subseteq> set (signatures st')) \<and>
   (getFunction st' name' = Some (h', f') \<and> blocks f' = [] \<and>
    AstExpr_codegen body' (AstFuncDef_entry (h', f') st') = (Some v, st2) \<longrightarrow>
      (case AstFuncDef_codegen uniq (AstFuncDef (AstPrototype name' args') body') st' of
         (r, st3) \<Rightarrow>
           r = Some h' \<and> signatures st3 = signatures st' \<and> cg_stderr st3 = cg_stderr st' \<and>
           emitted st3 = emitted st2 @ [RetInst (Some v)] \<and>
           getFunction st3 name' =
             Some (h', f'\<lparr>blocks :=
               [drop (length (emitted st')) (emitted st2) @ [RetInst (Some v)]]\<rparr>)))"
proof (intro conjI impI)
  assume "getFunction st name = Some (h, f) \<and> blocks f \<noteq> []"
  then show "AstFuncDef_codegen uniq (AstFuncDef (AstPrototype name args) body) st =
      (None, st\<lparr>cg_stderr := cg_stderr st @ [''Error: Function body already defined.'']\<rparr>)"
    by (simp add: log_error_val_def)
next
  assume a: "getFunction st' name' = Some (h', f') \<and> blocks f' = []"
  obtain w st2' where b: "AstExpr_codegen body' (AstFuncDef_entry (h', f') st') = (w, st2')"
    by (cases "AstExpr_codegen body' (AstFuncDef_entry (h', f') st')")
  have "next_handle st2' = next_handle st'"
    using codegen_keeps_functions [of body' "AstFuncDef_entry (h', f') st'"] b by simp
  then show "next_handle (snd (AstFuncDef_codegen uniq (AstFuncDef (AstPrototype name' args') body') st')) =
      next_handle st'"
    using a b by simp
next
  assume a: "getFunction st' name' = Some (h', f') \<and> blocks f' = []"
  obtain w st2' where b: "AstExpr_codegen body' (AstFuncDef_entry (h', f') st') = (w, st2')"
    by (cases "AstExpr_codegen body' (AstFuncDef_entry (h', f') st')")
  have "signatures st2' = signatures st'"
    using codegen_keeps_functions [of body' "AstFuncDef_entry (h', f') st'"] b by simp
  then show "set (signatures (snd (AstFuncDef_codegen uniq (AstFuncDef (AstPrototype name' args') body') st')))
      \<subseteq> set (signatures st')"
    using a b by (auto simp: signatures_erase)
next
  assume a: "getFunction st' name' = Some (h', f') \<and> blocks f' = [] \<and>
    AstExpr_codegen body' (AstFuncDef_entry (h', f') st') = (Some v, st2)"
  define e where "e = AstFuncDef_entry (h', f') st'"
  define ks where "ks = drop (length (emitted st')) (emitted st2)"
  have b: "AstExpr_codegen body' e = (Some v, st2)" using a by (simp add: e_def)
  have ip: "insert_point e = Some (h', 0)" and em: "emitted e = emitted st'"
    and er: "cg_stderr e = cg_stderr st'"
    using a by (simp_all add: e_def AstFuncDef_entry_def)
  have g: "grows h' 0 e st2"
    using codegen_grows [OF ip, of body'] b by simp
  have ip2: "insert_point st2 = Some (h', 0)"
    using g ip by (simp add: grows_def)
  have mf2: "module_functions st2 = append_block h' 0 ks (module_functions e)"
    using g by (simp add: grows_def em ks_def)
  have k: "signatures st2 = signatures st'"
    using codegen_keeps_functions [of body' e] b by (simp add: e_def)
  have silent: "cg_stderr st2 = cg_stderr st'"
    using codegen_success_silent [of body' e] b er by simp
  define st3 where "st3 = builder_insert (RetInst (Some v)) st2"
  have res: "AstFuncDef_codegen uniq (AstFuncDef (AstPrototype name' args') body') st' = (Some h', st3)"
    using a b by (simp add: e_def st3_def)
  have mf3: "module_functions st3 = append_block h' 0 (ks @ [RetInst (Some v)]) (module_functions e)"
    using ip2 mf2 by (simp add: st3_def builder_insert_def append_block_append [symmetric])
       (simp add: append_block_def)
  have ne: "name' \<noteq> []"
    using a by (auto simp: getFunction_def split: if_splits)
  have fnd: "find (\<lambda>(h, f). fn_name f = name') (module_functions st') = Some (h', f')"
    using a ne by (simp add: getFunction_def)
  have "getFunction st3 name' =
      find (\<lambda>(h, f). fn_name f = name')
        (map ((\<lambda>(k, f). if k = h' then (k, f\<lparr>blocks := (blocks f)[0 := blocks f ! 0 @ (ks @ [RetInst (Some v)])]\<rparr>)
                          else (k, f)) \<circ>
              (\<lambda>(k, f). if k = h' then (k, f\<lparr>blocks := blocks f @ [[]]\<rparr>) else (k, f)))
          (module_functions st'))"
    using ne by (simp add: getFunction_def mf3 append_block_def e_def AstFuncDef_entry_def)
  also have "\<dots> = map_option
      ((\<lambda>(k, f). if k = h' then (k, f\<lparr>blocks := (blocks f)[0 := blocks f ! 0 @ (ks @ [RetInst (Some v)])]\<rparr>)
                          else (k, f)) \<circ>
       (\<lambda>(k, f). if k = h' then (k, f\<lparr>blocks := blocks f @ [[]]\<rparr>) else (k, f)))
      (find (\<lambda>(h, f). fn_name f = name') (module_functions st'))"
    by (rule find_map_same) (auto split: prod.splits)
  also have "\<dots> = Some (h', f'\<lparr>blocks := [ks @ [RetInst (Some v)]]\<rparr>)"
    using a by (simp add: fnd)
  finally have gf: "getFunction st3 name' = Some (h', f'\<lparr>blocks := [ks @ [RetInst (Some v)]]\<rparr>)" .
  have "signatures st3 = signatures st'" "cg_stderr st3 = cg_stderr st'"
    using k silent by (simp_all add: st3_def)
  moreover have "emitted st3 = emitted st2 @ [RetInst (Some v)]"
    by (simp add: st3_def builder_insert_def)
  ultimately show "case AstFuncDef_codegen uniq (AstFuncDef (AstPrototype name' args') body') st' of
      (r, st3) \<Rightarrow>
        r = Some h' \<and> signatures st3 = signatures st' \<and> cg_stderr st3 = cg_stderr st' \<and>
        emitted st3 = emitted st2 @ [RetInst (Some v)] \<and>
        getFunction st3 name' =
          Some (h', f'\<lparr>blocks := [drop (length (emitted st')) (emitted st2) @ [RetInst (Some v)]]\<rparr>)"
    using res gf by (simp add: ks_def)
qed

theorem redefinition_rejected_reuse_defines_witness:
  "AstFuncDef_codegen keep_name
      (AstFuncDef (AstPrototype ''foo'' [''a''])
         (BinaryExpr (CHR ''+'') (VarExpr ''a'') (NumLiteralExpr ''1'')))
      (snd (AstFuncDef_codegen keep_name (AstFuncDef (AstPrototype ''foo'' [''a'']) (VarExpr ''a''))
         (empty_module :: string codegen_state))) =
     (None,
      (snd (AstFuncDef_codegen keep_name (AstFuncDef (AstPrototype ''foo'' [''a'']) (VarExpr ''a''))
         (empty_module :: string codegen_state)))\<lparr>cg_stderr := [''Error: Function body already defined.'']\<rparr>) \<and>
   (case AstFuncDef_codegen keep_name
      (AstFuncDef (AstPrototype ''foo'' [''a'', ''b''])
         (BinaryExpr (CHR ''+'') (VarExpr ''a'') (VarExpr ''b'')))
      (snd (AstPrototype_codegen keep_name (AstPrototype ''foo'' [''a'', ''b''])
         (empty_module :: string codegen_state))) of
      (r, st3) \<Rightarrow>
        r = Some 0 \<and> next_handle st3 = 1 \<and> signatures st3 = [(0, ''foo'', [''a'', ''b''])] \<and>
        cg_stderr st3 = [] \<and>
        emitted st3 =
          [FAdd (Argument 0 0) (Argument 0 1), RetInst (Some (FAdd (Argument 0 0) (Argument 0 1)))] \<and>
        getFunction st3 ''foo'' =
          Some (0, \<lparr>fn_name = ''foo'', arg_names = [''a'', ''b''],
            blocks = [[FAdd (Argument 0 0) (Argument 0 1),
                       RetInst (Some (FAdd (Argument 0 0) (Argument 0 1)))]]\<rparr>))"
proof -
  define st1 where "st1 = snd (AstFuncDef_codegen keep_name
    (AstFuncDef (AstPrototype ''foo'' [''a'']) (VarExpr ''a'')) (empty_module :: string codegen_state))"
  define st2 where "st2 = snd (AstPrototype_codegen keep_name (AstPrototype ''foo'' [''a'', ''b''])
    (empty_module :: string codegen_state))"
  let ?f1 = "\<lparr>fn_name = ''foo'', arg_names = [''a''],
    blocks = [[RetInst (Some (Argument 0 0 :: string Value))]]\<rparr>"
  let ?f2 = "\<lparr>fn_name = ''foo'', arg_names = [''a'', ''b''], blocks = ([] :: string Value list list)\<rparr>"
  let ?add = "FAdd (Argument 0 0) (Argument 0 1) :: string Value"
  let ?body = "BinaryExpr (CHR ''+'') (VarExpr ''a'') (VarExpr ''b'') :: string AstExpr"
  define st2b where "st2b = snd (AstExpr_codegen ?body (AstFuncDef_entry (0, ?f2) st2))"
  have g1: "getFunction st1 ''foo'' = Some (0, ?f1) \<and> blocks ?f1 \<noteq> []"
    unfolding st1_def by (simp add: codegen_simps)
  have e1: "cg_stderr st1 = []"
    unfolding st1_def by (simp add: codegen_simps)
  have g2: "getFunction st2 ''foo'' = Some (0, ?f2) \<and> blocks ?f2 = []"
    unfolding st2_def by (simp add: codegen_simps)
  have b2: "AstExpr_codegen ?body (AstFuncDef_entry (0, ?f2) st2) = (Some ?add, st2b)"
    unfolding st2b_def st2_def by (simp add: codegen_simps)
  have s2: "signatures st2 = [(0, ''foo'', [''a'', ''b''])]" "next_handle st2 = 1"
    "cg_stderr st2 = []" "emitted st2 = []"
    unfolding st2_def by (simp_all add: codegen_simps signatures_def)
  have em: "emitted st2b = [?add]"
    unfolding st2b_def st2_def by (simp add: codegen_simps)
  note t = redefinition_rejected_reuse_defines [where st = st1 and name = "''foo''" and h = 0
      and f = ?f1 and uniq = keep_name and args = "[''a'']"
      and body = "BinaryExpr (CHR ''+'') (VarExpr ''a'') (NumLiteralExpr ''1'')"
      and st' = st2 and name' = "''foo''" and h' = 0 and f' = ?f2 and args' = "[''a'', ''b'']"
      and body' = ?body and v = ?add and ?st2.0 = st2b]
  note p1 = t [THEN conjunct1, THEN mp, OF g1]
  note p2 = t [THEN conjunct2, THEN conjunct1, THEN mp, OF g2, THEN conjunct1]
  from g2 b2 have "getFunction st2 ''foo'' = Some (0, ?f2) \<and> blocks ?f2 = [] \<and>
      AstExpr_codegen ?body (AstFuncDef_entry (0, ?f2) st2) = (Some ?add, st2b)"
    by simp
  note p3 = t [THEN conjunct2, THEN conjunct2, THEN mp, OF this]
  from p2 p3 s2 em have p: "case AstFuncDef_codegen keep_name (AstFuncDef (AstPrototype ''foo'' [''a'', ''b'']) ?body) st2 of
      (r, st3) \<Rightarrow>
        r = Some 0 \<and> next_handle st3 = 1 \<and> signatures st3 = [(0, ''foo'', [''a'', ''b''])] \<and>
        cg_stderr st3 = [] \<and> emitted st3 = [?add, RetInst (Some ?add)] \<and>
        getFunction st3 ''foo'' =
          Some (0, \<lparr>fn_name = ''foo'', arg_names = [''a'', ''b''],
            blocks = [[?add, RetInst (Some ?add)]]\<rparr>)"
    by (auto split: prod.splits)
  from p1 e1 p show ?thesis
    unfolding st1_def st2_def by simp
qed

text \<open>
  The claim as first stated, that the definition over a declaration succeeds, fails when
  the definition names its parameters otherwise than the declaration: after
  \<open>extern foo(a b)\<close>, lowering \<open>def foo(x y) x+y\<close> finds neither \<open>x\<close> nor \<open>y\<close> in scope, writes
  two diagnostics and erases the function, so that the module has no \<open>foo\<close> left.
\<close>

theorem reuse_with_other_names_fails:
  "getFunction
     (snd (AstPrototype_codegen keep_name (AstPrototype ''foo'' [''a'', ''b''])
        (empty_module :: string codegen_state))) ''foo'' =
     Some (0, \<lparr>fn_name = ''foo'', arg_names = [''a'', ''b''], blocks = []\<rparr>) \<and>
   getFunction
     (snd (AstFuncDef_codegen keep_name
        (AstFuncDef (AstPrototype ''foo'' [''x'', ''y''])
           (BinaryExpr (CHR ''+'') (VarExpr ''x'') (VarExpr ''y'')))
        (snd (AstPrototype_codegen keep_name (AstPrototype ''foo'' [''a'', ''b''])
           (empty_module :: string codegen_state))))) ''foo'' = None \<and>
   module_functions
     (snd (AstFuncDef_codegen keep_name
        (AstFuncDef (AstPrototype ''foo'' [''x'', ''y''])
           (BinaryExpr (CHR ''+'') (VarExpr ''x'') (VarExpr ''y'')))
        (snd (AstPrototype_codegen keep_name (AstPrototype ''foo'' [''a'', ''b''])
           (empty_module :: string codegen_state))))) = [] \<and>
   cg_stderr
     (snd (AstFuncDef_codegen keep_name
        (AstFuncDef (AstPrototype ''foo'' [''x'', ''y''])
           (BinaryExpr (CHR ''+'') (VarExpr ''x'') (VarExpr ''y'')))
        (snd (AstPrototype_codegen keep_name (AstPrototype ''foo'' [''a'', ''b''])
           (empty_module :: string codegen_state))))) =
     [''Error: Attempted access of undefined variable x'',
      ''Error: Attempted access of undefined variable y'']"
  by (simp add: codegen_simps)

text \<open>The diagnostics of undefined variables that lowering an expression writes.\<close>

lemma undefined_variable_inj [simp]: "(undefined_variable x = undefined_variable y) = (x = y)"
  by (simp add: undefined_variable_def)

lemma undefined_variable_other [simp]:
  "undefined_variable x \<noteq> ''Error: Unknown function being called''"
  "undefined_variable x \<noteq> ''Error: Wrong number of arguments provided in function call''"
  "undefined_variable x \<noteq> ''Error: Invalid binary operator '' @ [CHR 0x27, c, CHR 0x27]"
  by (simp_all add: undefined_variable_def)

lemma cg_stderr_create [simp]: "cg_stderr (snd (create i st)) = cg_stderr st"
  by (simp add: create_def)

lemma codegen_diagnostics:
  "\<exists>msgs. cg_stderr (snd (AstExpr_codegen e st)) = cg_stderr st @ msgs \<and>
     (\<forall>x. (undefined_variable x \<in> set msgs) = (x \<in> set (lowered_vars e) \<and> \<not> in_scope st x))"
proof (induction e arbitrary: st)
  case (NumLiteralExpr v)
  show ?case by simp
next
  case (VarExpr name)
  show ?case
  proof (cases "in_scope st name")
    case True
    then have "cg_stderr (snd (AstExpr_codegen (VarExpr name) st)) = cg_stderr st @ []"
      using var_codegen_stderr [of name st] by simp
    moreover have "\<forall>x. (undefined_variable x \<in> set []) = (x \<in> set (lowered_vars (VarExpr name :: 'a AstExpr)) \<and> \<not> in_scope st x)"
      using True by auto
    ultimately show ?thesis by blast
  next
    case False
    then have "cg_stderr (snd (AstExpr_codegen (VarExpr name) st)) = cg_stderr st @ [undefined_variable name]"
      using var_codegen_stderr [of name st] by (simp add: undefined_variable_def)
    moreover have "\<forall>x. (undefined_variable x \<in> set [undefined_variable name]) =
        (x \<in> set (lowered_vars (VarExpr name :: 'a AstExpr)) \<and> \<not> in_scope st x)"
      using False by auto
    ultimately show ?thesis by blast
  qed
next
  case (BinaryExpr op l r)
  obtain lv st1 where l: "AstExpr_codegen l st = (lv, st1)" by (cases "AstExpr_codegen l st")
  obtain rv st2 where r: "AstExpr_codegen r st1 = (rv, st2)" by (cases "AstExpr_codegen r st1")
  obtain m1 where m1: "cg_stderr st1 = cg_stderr st @ m1"
    "\<forall>x. (undefined_variable x \<in> set m1) = (x \<in> set (lowered_vars l) \<and> \<not> in_scope st x)"
    using BinaryExpr.IH(1) [of st] l by auto
  obtain m2 where m2: "cg_stderr st2 = cg_stderr st1 @ m2"
    "\<forall>x. (undefined_variable x \<in> set m2) = (x \<in> set (lowered_vars r) \<and> \<not> in_scope st1 x)"
    using BinaryExpr.IH(2) [of st1] r by auto
  have sc: "\<And>x. in_scope st1 x = in_scope st x"
    using in_scope_codegen [of l st] l by simp
  obtain extra where ex: "cg_stderr (snd (AstExpr_codegen (BinaryExpr op l r) st)) = cg_stderr st2 @ extra"
    "\<forall>x. undefined_variable x \<notin> set extra"
  proof (cases "lv = None \<or> rv = None \<or> op = CHR ''+'' \<or> op = CHR ''*'' \<or> op = CHR ''-'' \<or> op = CHR ''<''")
    case True
    then have "cg_stderr (snd (AstExpr_codegen (BinaryExpr op l r) st)) = cg_stderr st2 @ []"
      using l r by (cases lv; cases rv) auto
    then show ?thesis using that [of "[]"] by simp
  next
    case False
    then have "cg_stderr (snd (AstExpr_codegen (BinaryExpr op l r) st)) =
        cg_stderr st2 @ [''Error: Invalid binary operator '' @ [CHR 0x27, op, CHR 0x27]]"
      using l r by (cases lv; cases rv) (auto simp: log_error_val_def)
    then show ?thesis
      using that [of "[''Error: Invalid binary operator '' @ [CHR 0x27, op, CHR 0x27]]"]
        undefined_variable_other(3) [of _ op]
      by (metis empty_iff empty_set set_ConsD)
  qed
  have "cg_stderr (snd (AstExpr_codegen (BinaryExpr op l r) st)) = cg_stderr st @ (m1 @ m2 @ extra)"
    using ex(1) m1(1) m2(1) by simp
  moreover have "\<forall>x. (undefined_variable x \<in> set (m1 @ m2 @ extra)) =
      (x \<in> set (lowered_vars (BinaryExpr op l r)) \<and> \<not> in_scope st x)"
    using m1(2) m2(2) ex(2) sc by auto
  ultimately show ?case by blast
next
  case (CallExpr callee args)
  show ?case
  proof (cases "getFunction st callee")
    case None
    then have "cg_stderr (snd (AstExpr_codegen (CallExpr callee args) st)) =
        cg_stderr st @ [''Error: Unknown function being called'']"
      by (simp add: log_error_val_def)
    moreover have "\<forall>x. (undefined_variable x \<in> set [''Error: Unknown function being called'']) =
        (x \<in> set (lowered_vars (CallExpr callee args)) \<and> \<not> in_scope st x)"
      using undefined_variable_other(1) by simp
    ultimately show ?thesis by blast
  next
    case (Some hf)
    obtain h f where hf: "hf = (h, f)" by (cases hf)
    show ?thesis
    proof (cases "length (arg_names f) \<noteq> length args")
      case True
      then have "cg_stderr (snd (AstExpr_codegen (CallExpr callee args) st)) =
          cg_stderr st @ [''Error: Wrong number of arguments provided in function call'']"
        using Some hf by (simp add: log_error_val_def)
      moreover have "\<forall>x. (undefined_variable x \<in>
            set [''Error: Wrong number of arguments provided in function call'']) =
          (x \<in> set (lowered_vars (CallExpr callee args)) \<and> \<not> in_scope st x)"
        using undefined_variable_other(2) by simp
      ultimately show ?thesis by blast
    next
      case False
      then have "cg_stderr (snd (AstExpr_codegen (CallExpr callee args) st)) = cg_stderr st @ []"
        using Some hf by simp
      then show ?thesis by (intro exI [of _ "[]"]) simp
    qed
  qed
qed

lemma func_of_named_values:
  "func_of uniq proto (st\<lparr>named_values := nv\<rparr>) =
     (case func_of uniq proto st of (r, s) \<Rightarrow> (r, s\<lparr>named_values := nv\<rparr>))"
  by (cases proto) (simp add: func_of_def getFunction_def Let_def split: option.splits)

lemma entry_forgets: "AstFuncDef_entry func (st\<lparr>named_values := nv\<rparr>) = AstFuncDef_entry func st"
  by (cases func) (simp add: AstFuncDef_entry_def)

lemma func_of_keeps:
  "func_of uniq proto st = (r, st1) \<Longrightarrow> cg_stderr st1 = cg_stderr st \<and> emitted st1 = emitted st"
  by (cases proto) (auto simp: func_of_def Let_def split: option.splits)

lemma funcdef_codegen_unfold:
  "func_of uniq proto st = (Some (h, f), st1) \<Longrightarrow> blocks f = [] \<Longrightarrow>
     AstFuncDef_codegen uniq (AstFuncDef proto body) st =
       (case AstExpr_codegen body (AstFuncDef_entry (h, f) st1) of
          (v, st2) \<Rightarrow>
            (Some h, builder_insert (RetInst v) (if v = None then eraseFromParent h st2 else st2)))"
  by (simp add: func_of_def)

lemma cg_stderr_erase [simp]: "cg_stderr (eraseFromParent h st) = cg_stderr st"
  by (simp add: eraseFromParent_def)

lemma emitted_erase [simp]: "emitted (eraseFromParent h st) = emitted st"
  by (simp add: eraseFromParent_def)

lemma cg_stderr_entry [simp]: "cg_stderr (AstFuncDef_entry func st) = cg_stderr st"
  by (cases func) (simp add: AstFuncDef_entry_def)

lemma emitted_entry [simp]: "emitted (AstFuncDef_entry func st) = emitted st"
  by (cases func) (simp add: AstFuncDef_entry_def)

text \<open>
  Claim C8, as amended. Let \<open>AstFuncDef::codegen\<close> get past the redefinition test with the
  function \<open>f\<close> (found under the name, or created from the prototype). Then the bindings
  that \<open>named_values\<close> held before have no effect on the lowering, result and final state
  alike: no name of an earlier function can resolve. A variable reference lowered in the
  body yields the diagnostic of an undefined variable exactly when its name is not one of
  the argument names of \<open>f\<close>; for a body that is a single variable reference, the value
  returned is non-null exactly when the name is one of these. The argument names of \<open>f\<close> are
  the parameter names of the prototype when \<open>f\<close> is created by this definition and the
  names are distinct; when a declaration is reused, \<open>f\<close> is the declaration, with the
  argument names it was declared with.
\<close>

theorem body_scope_is_function_arguments:
  fixes st :: "'d codegen_state"
  assumes func: "func_of uniq proto st = (Some (h, f), st1)"
    and empty: "blocks f = []"
  shows
  "AstFuncDef_codegen uniq (AstFuncDef proto body) (st\<lparr>named_values := nv\<rparr>) =
     AstFuncDef_codegen uniq (AstFuncDef proto body) st \<and>
   (\<forall>x. (undefined_variable x \<in>
          set (drop (length (cg_stderr st))
            (cg_stderr (snd (AstFuncDef_codegen uniq (AstFuncDef proto body) st))))) =
        (x \<in> set (lowered_vars body) \<and> x \<notin> set (arg_names f))) \<and>
   (\<forall>x. \<exists>v. emitted (snd (AstFuncDef_codegen uniq (AstFuncDef proto (VarExpr x)) st)) =
            emitted st @ [RetInst v] \<and>
          (v \<noteq> None) = (x \<in> set (arg_names f))) \<and>
   (getFunction st (get_name proto) = None \<and> distinct (parameters proto) \<longrightarrow>
      arg_names f = parameters proto) \<and>
   (\<forall>d. getFunction st (get_name proto) = Some d \<longrightarrow> d = (h, f))"
proof (intro conjI allI impI)
  have "func_of uniq proto (st\<lparr>named_values := nv\<rparr>) = (Some (h, f), st1\<lparr>named_values := nv\<rparr>)"
    using func by (simp add: func_of_named_values)
  from funcdef_codegen_unfold [OF this empty, of body] funcdef_codegen_unfold [OF func empty, of body]
  show "AstFuncDef_codegen uniq (AstFuncDef proto body) (st\<lparr>named_values := nv\<rparr>) =
      AstFuncDef_codegen uniq (AstFuncDef proto body) st"
    by (simp add: entry_forgets)
next
  fix x
  obtain v st2 where b: "AstExpr_codegen body (AstFuncDef_entry (h, f) st1) = (v, st2)"
    by (cases "AstExpr_codegen body (AstFuncDef_entry (h, f) st1)")
  obtain msgs where m: "cg_stderr st2 = cg_stderr (AstFuncDef_entry (h, f) st1) @ msgs"
    "\<forall>x. (undefined_variable x \<in> set msgs) =
       (x \<in> set (lowered_vars body) \<and> \<not> in_scope (AstFuncDef_entry (h, f) st1) x)"
    using codegen_diagnostics [of body "AstFuncDef_entry (h, f) st1"] b by auto
  have "cg_stderr (snd (AstFuncDef_codegen uniq (AstFuncDef proto body) st)) = cg_stderr st @ msgs"
    using funcdef_codegen_unfold [OF func empty, of body] b m(1) func_of_keeps [OF func] by simp
  then show "(undefined_variable x \<in>
        set (drop (length (cg_stderr st))
          (cg_stderr (snd (AstFuncDef_codegen uniq (AstFuncDef proto body) st))))) =
      (x \<in> set (lowered_vars body) \<and> x \<notin> set (arg_names f))"
    using m(2) by (simp add: in_scope_entry)
next
  fix x
  obtain v st2 where b: "AstExpr_codegen (VarExpr x) (AstFuncDef_entry (h, f) st1) = (v, st2)"
    by (cases "AstExpr_codegen (VarExpr x) (AstFuncDef_entry (h, f) st1)")
  have em: "emitted st2 = emitted st"
    using b func_of_keeps [OF func]
    by (cases "named_values (AstFuncDef_entry (h, f) st1) x";
        cases "the (named_values (AstFuncDef_entry (h, f) st1) x)")
       (auto simp: log_error_val_def)
  have "(v \<noteq> None) = (x \<in> set (arg_names f))"
    using var_codegen_iff [of x "AstFuncDef_entry (h, f) st1"] b by (simp add: in_scope_entry)
  moreover have "emitted (snd (AstFuncDef_codegen uniq (AstFuncDef proto (VarExpr x)) st)) =
      emitted st @ [RetInst v]"
    using funcdef_codegen_unfold [OF func empty, of "VarExpr x"] b em
    by (simp add: builder_insert_def)
  ultimately show "\<exists>v. emitted (snd (AstFuncDef_codegen uniq (AstFuncDef proto (VarExpr x)) st)) =
        emitted st @ [RetInst v] \<and> (v \<noteq> None) = (x \<in> set (arg_names f))"
    by blast
next
  assume "getFunction st (get_name proto) = None \<and> distinct (parameters proto)"
  then show "arg_names f = parameters proto"
    using func by (cases proto) (auto simp: func_of_def Let_def set_arg_names_distinct)
next
  fix d
  assume "getFunction st (get_name proto) = Some d"
  then show "d = (h, f)"
    using func by (simp add: func_of_def)
qed

theorem body_scope_is_function_arguments_witness:
  "fst (func_of keep_name (AstPrototype ''foo'' [''a'', ''b''])
      ((empty_module :: string codegen_state)\<lparr>named_values := [''z'' \<mapsto> Some (ConstantFP ''1'')]\<rparr>)) =
     Some (0, \<lparr>fn_name = ''foo'', arg_names = [''a'', ''b''], blocks = []\<rparr>) \<and>
   AstFuncDef_codegen keep_name
      (AstFuncDef (AstPrototype ''foo'' [''a'', ''b''])
         (BinaryExpr (CHR ''+'') (VarExpr ''a'') (VarExpr ''z'')))
      ((empty_module :: string codegen_state)\<lparr>named_values := [''z'' \<mapsto> Some (ConstantFP ''1'')]\<rparr>
         \<lparr>named_values := Map.empty\<rparr>) =
     AstFuncDef_codegen keep_name
      (AstFuncDef (AstPrototype ''foo'' [''a'', ''b''])
         (BinaryExpr (CHR ''+'') (VarExpr ''a'') (VarExpr ''z'')))
      ((empty_module :: string codegen_state)\<lparr>named_values := [''z'' \<mapsto> Some (ConstantFP ''1'')]\<rparr>) \<and>
   undefined_variable ''z'' \<in>
     set (cg_stderr (snd (AstFuncDef_codegen keep_name
        (AstFuncDef (AstPrototype ''foo'' [''a'', ''b''])
           (BinaryExpr (CHR ''+'') (VarExpr ''a'') (VarExpr ''z'')))
        ((empty_module :: string codegen_state)\<lparr>named_values := [''z'' \<mapsto> Some (ConstantFP ''1'')]\<rparr>)))) \<and>
   undefined_variable ''a'' \<notin>
     set (cg_stderr (snd (AstFuncDef_codegen keep_name
        (AstFuncDef (AstPrototype ''foo'' [''a'', ''b''])
           (BinaryExpr (CHR ''+'') (VarExpr ''a'') (VarExpr ''z'')))
        ((empty_module :: string codegen_state)\<lparr>named_values := [''z'' \<mapsto> Some (ConstantFP ''1'')]\<rparr>))))"
proof -
  define S where "S = (empty_module :: string codegen_state)\<lparr>named_values := [''z'' \<mapsto> Some (ConstantFP ''1'')]\<rparr>"
  let ?P = "AstPrototype ''foo'' [''a'', ''b'']"
  let ?B = "BinaryExpr (CHR ''+'') (VarExpr ''a'') (VarExpr ''z'') :: string AstExpr"
  let ?F = "\<lparr>fn_name = ''foo'', arg_names = [''a'', ''b''], blocks = ([] :: string Value list list)\<rparr>"
  have fo: "fst (func_of keep_name ?P S) = Some (0, ?F)"
    by (simp add: func_of_def S_def codegen_simps keep_name_def)
  then have func: "func_of keep_name ?P S = (Some (0, ?F), snd (func_of keep_name ?P S))"
    by (metis prod.collapse)
  have empty: "blocks ?F = []" by simp
  have len: "cg_stderr S = []" by (simp add: S_def empty_module_def)
  note t = body_scope_is_function_arguments [OF func empty, of ?B Map.empty]
  from t have 1: "AstFuncDef_codegen keep_name (AstFuncDef ?P ?B) (S\<lparr>named_values := Map.empty\<rparr>) =
      AstFuncDef_codegen keep_name (AstFuncDef ?P ?B) S"
    by (rule conjunct1)
  from t have 2: "\<And>x. (undefined_variable x \<in>
        set (cg_stderr (snd (AstFuncDef_codegen keep_name (AstFuncDef ?P ?B) S)))) =
      (x \<in> set (lowered_vars ?B) \<and> x \<notin> set (arg_names ?F))"
    using len by simp
  have "undefined_variable ''z'' \<in> set (cg_stderr (snd (AstFuncDef_codegen keep_name (AstFuncDef ?P ?B) S)))"
    unfolding 2 by simp
  moreover have "undefined_variable ''a'' \<notin> set (cg_stderr (snd (AstFuncDef_codegen keep_name (AstFuncDef ?P ?B) S)))"
    unfolding 2 by simp
  ultimately show ?thesis
    using fo 1 unfolding S_def by simp
qed

text \<open>
  The claim as first stated, with the parameters of the definition as the scope, fails
  when a declaration is reused: after \<open>extern foo(a)\<close>, in the body of \<open>def foo(b) ...\<close> the
  parameter \<open>b\<close> does not resolve, and \<open>a\<close>, which is not a parameter of the definition,
  does.
\<close>

theorem parameter_of_definition_not_in_scope:
  "''b'' \<in> set (parameters (AstPrototype ''foo'' [''b''])) \<and>
   ''a'' \<notin> set (parameters (AstPrototype ''foo'' [''b''])) \<and>
   cg_stderr
     (snd (AstFuncDef_codegen keep_name (AstFuncDef (AstPrototype ''foo'' [''b'']) (VarExpr ''b''))
        (snd (AstPrototype_codegen keep_name (AstPrototype ''foo'' [''a''])
           (empty_module :: string codegen_state))))) =
     [''Error: Attempted access of undefined variable b''] \<and>
   emitted
     (snd (AstFuncDef_codegen keep_name (AstFuncDef (AstPrototype ''foo'' [''b'']) (VarExpr ''b''))
        (snd (AstPrototype_codegen keep_name (AstPrototype ''foo'' [''a''])
           (empty_module :: string codegen_state))))) = [RetInst None] \<and>
   cg_stderr
     (snd (AstFuncDef_codegen keep_name (AstFuncDef (AstPrototype ''foo'' [''b'']) (VarExpr ''a''))
        (snd (AstPrototype_codegen keep_name (AstPrototype ''foo'' [''a''])
           (empty_module :: string codegen_state))))) = [] \<and>
   emitted
     (snd (AstFuncDef_codegen keep_name (AstFuncDef (AstPrototype ''foo'' [''b'']) (VarExpr ''a''))
        (snd (AstPrototype_codegen keep_name (AstPrototype ''foo'' [''a''])
           (empty_module :: string codegen_state))))) = [RetInst (Some (Argument 0 0))]"
  by (simp add: codegen_simps)

text \<open>
  Claim C4. The claim says that, when the lowering of the body fails, the function is
  discarded and then a null pointer is returned, with no return instruction emitted. The
  source erases the function but has no \<open>return\<close> after \<open>func.eraseFromParent()\<close>: for
  \<open>def foo(a) b\<close> in an empty module, whose body names an undefined variable, the function
  is erased, \<open>CreateRet\<close> is then called with the null value, and the result is the handle
  of the erased function, not a null pointer.
\<close>

theorem failed_body_returns_function:
  "(case AstFuncDef_codegen uniq (AstFuncDef (AstPrototype ''foo'' [''a'']) (VarExpr ''b'')) empty_module of
      (r, st) \<Rightarrow>
        r = Some 0 \<and> module_functions st = [] \<and> emitted st = [RetInst None] \<and>
        cg_stderr st = [''Error: Attempted access of undefined variable b''])"
  by (simp add: codegen_simps)

text \<open>
  Claim C7. The claim says that on success the arguments of a call are lowered in order
  before the call is emitted. The loop of \<open>CallExpr::codegen\<close> pushes the argument nodes
  themselves (\<open>arg_vals.push_back(arg)\<close>) and never calls \<open>codegen\<close> on them: for
  \<open>extern foo(x)\<close> followed by \<open>def bar(a b) foo(a+b)\<close> the only instructions emitted are
  the call, whose operand is the syntax node of \<open>a+b\<close>, and the return; no addition is
  emitted.
\<close>

theorem call_arguments_not_lowered:
  "(case AstFuncDef_codegen uniq
      (AstFuncDef (AstPrototype ''bar'' [''a'', ''b''])
         (CallExpr ''foo'' [BinaryExpr (CHR ''+'') (VarExpr ''a'') (VarExpr ''b'')]))
      (snd (AstPrototype_codegen uniq (AstPrototype ''foo'' [''x'']) empty_module)) of
      (r, st) \<Rightarrow>
        r = Some 1 \<and>
        emitted st =
          [CallInst 0 [AstPointer (BinaryExpr (CHR ''+'') (VarExpr ''a'') (VarExpr ''b''))],
           RetInst (Some (CallInst 0 [AstPointer (BinaryExpr (CHR ''+'') (VarExpr ''a'') (VarExpr ''b''))]))] \<and>
        cg_stderr st = [])"
  by (simp add: codegen_simps)

text \<open>
  What does hold of \<open>CallExpr::codegen\<close> as written: it returns a null pointer exactly when
  the callee is unknown or the number of arguments differs, and an unknown callee leaves
  everything but the error stream as it was.
\<close>

lemma call_codegen_fails_iff:
  "(fst (AstExpr_codegen (CallExpr callee args) st) = None) =
     (case getFunction st callee of
        None \<Rightarrow> True
      | Some (h, f) \<Rightarrow> length (arg_names f) \<noteq> length args)"
  by (auto simp: create_def split: option.splits)

lemma call_unknown_function:
  "getFunction st callee = None \<Longrightarrow>
     AstExpr_codegen (CallExpr callee args) st =
       (None, st\<lparr>cg_stderr := cg_stderr st @ [''Error: Unknown function being called'']\<rparr>)"
  by (simp add: log_error_val_def)

text \<open>
  \<open>AstFuncDef::codegen\<close> returns a null pointer only for a redefinition, whatever becomes
  of the body.
\<close>

lemma funcdef_codegen_fails_iff:
  "(fst (AstFuncDef_codegen uniq (AstFuncDef proto body) st) = None) =
     (case getFunction st (get_name proto) of
        None \<Rightarrow> False
      | Some (h, f) \<Rightarrow> blocks f \<noteq> [])"
  by (cases proto) (auto simp: Let_def split: option.splits prod.splits)

end
